theory Spec2Isabelle
  imports Main
begin

section \<open>Path and string functions of the Python library used by the client\<close>

text \<open>
  The client runs on a POSIX system: \<open>os.sep\<close> is \<open>/\<close> and \<open>os.path\<close> is
  \<open>posixpath\<close>. It nevertheless calls \<open>ntpath.basename\<close> and \<open>ntpath.dirname\<close>, which
  treat both \<open>/\<close> and the backslash as separators and split off a drive or UNC prefix
  first (CPython 3.11). Python strings are modelled as \<open>string\<close>.
\<close>

type_synonym path = string


definition slash :: char where
  "slash = CHR ''/''"

definition backslash :: char where
  "backslash = CHR 0x5C"

definition startswith :: "string \<Rightarrow> string \<Rightarrow> bool" where
  "startswith s pre = (take (length pre) s = pre)"

definition endswith :: "string \<Rightarrow> string \<Rightarrow> bool" where
  "endswith s suf = (length suf \<le> length s \<and> drop (length s - length suf) s = suf)"

definition rstrip :: "char list \<Rightarrow> string \<Rightarrow> string" where
  "rstrip cs s = rev (dropWhile (\<lambda>c. c \<in> set cs) (rev s))"

fun find_from :: "string \<Rightarrow> char \<Rightarrow> nat \<Rightarrow> nat option" where
  "find_from s c start =
     (case dropWhile (\<lambda>x. x \<noteq> c) (drop start s) of
        [] \<Rightarrow> None
      | _ # rest \<Rightarrow> Some (length s - Suc (length rest)))"

definition rfind :: "string \<Rightarrow> char \<Rightarrow> int" where
  "rfind s c =
     (if c \<in> set s then int (length s) - 1 - int (length (takeWhile (\<lambda>x. x \<noteq> c) (rev s)))
      else - 1)"

definition ascii_upper :: "char \<Rightarrow> char" where
  "ascii_upper c =
     (let k = (of_char c :: nat) in if 97 \<le> k \<and> k \<le> 122 then char_of (k - 32) else c)"

definition ntpath_splitdrive :: "path \<Rightarrow> path \<times> path" where
  "ntpath_splitdrive p =
     (if length p \<ge> 2 then
        (let normp = map (\<lambda>c. if c = slash then backslash else c) p in
         if take 2 normp = [backslash, backslash] then
           (let start = (if map ascii_upper (take 8 normp)
                            = [backslash, backslash, CHR ''?'', backslash,
                               CHR ''U'', CHR ''N'', CHR ''C'', backslash]
                         then 8 else 2)
            in case find_from normp backslash start of
                 None \<Rightarrow> (p, [])
               | Some index \<Rightarrow>
                   (case find_from normp backslash (index + 1) of
                      None \<Rightarrow> (p, [])
                    | Some index2 \<Rightarrow> (take index2 p, drop index2 p)))
         else if take 1 (drop 1 normp) = '':'' then (take 2 p, drop 2 p)
         else ([], p))
      else ([], p))"

definition ntpath_split :: "path \<Rightarrow> path \<times> path" where
  "ntpath_split p0 =
     (let seps = [backslash, slash];
          (d, p) = ntpath_splitdrive p0;
          tail = rev (takeWhile (\<lambda>c. c \<notin> set seps) (rev p));
          head = rev (dropWhile (\<lambda>c. c \<notin> set seps) (rev p));
          head' = (if rstrip seps head = [] then head else rstrip seps head)
      in (d @ head', tail))"

definition ntpath_basename :: "path \<Rightarrow> path" where
  "ntpath_basename p = snd (ntpath_split p)"

definition ntpath_dirname :: "path \<Rightarrow> path" where
  "ntpath_dirname p = fst (ntpath_split p)"

definition os_path_splitext :: "path \<Rightarrow> path \<times> string" where
  "os_path_splitext p =
     (let sepIndex = rfind p slash;
          dotIndex = rfind p (CHR ''.'')
      in if dotIndex > sepIndex \<and>
            list_ex (\<lambda>c. c \<noteq> CHR ''.'')
              (take (nat (dotIndex - (sepIndex + 1))) (drop (nat (sepIndex + 1)) p))
         then (take (nat dotIndex) p, drop (nat dotIndex) p)
         else (p, []))"

definition os_path_join :: "path \<Rightarrow> path \<Rightarrow> path" where
  "os_path_join a b =
     (if startswith b [slash] then b
      else if a = [] \<or> endswith a [slash] then a @ b
      else a @ [slash] @ b)"

text \<open>\<open>os.sep.join(parts)\<close>.\<close>

definition os_sep_join :: "string list \<Rightarrow> string" where
  "os_sep_join parts =
     (case parts of [] \<Rightarrow> [] | x # xs \<Rightarrow> foldl (\<lambda>acc y. acc @ [slash] @ y) x xs)"

fun str_nat :: "nat \<Rightarrow> string" where
  "str_nat k = (if k < 10 then [''0123456789'' ! k]
                else str_nat (k div 10) @ [''0123456789'' ! (k mod 10)])"

definition str_int :: "int \<Rightarrow> string" where
  "str_int i = (if i < 0 then CHR ''-'' # str_nat (nat (- i)) else str_nat (nat i))"

text \<open>An f-string prints the value \<open>None\<close> as the word \<open>None\<close>.\<close>

definition str_optional :: "string option \<Rightarrow> string" where
  "str_optional v = (case v of None \<Rightarrow> ''None'' | Some s \<Rightarrow> s)"

section \<open>The file system, the service and the events of a run\<close>

text \<open>
  A directory tree as \<open>os.walk\<close> sees it: a regular file with its contents, or a
  directory with its entries in the order \<open>scandir\<close> lists them.
\<close>

datatype fsnode = File string | Dir "(string \<times> fsnode) list"

datatype py_error =
  NameError | ValueError | TypeError | OSError | ConnectionError | TransportError | RecursionError

text \<open>
  How a call ends: it returns (every method of the client returns \<open>None\<close>), it raises,
  or the budget of steps that the model gives to a pool is used up before the pool is
  done. The last case is an outcome of the model only: a pool with enough steps always
  comes to its end.
\<close>

datatype outcome = Returned | Raised py_error | OutOfFuel

record request =
  req_url :: string
  req_input :: "path \<times> string"
  req_data :: "(string \<times> string) list"
  req_headers :: "(string \<times> string) list"

datatype message =
    ConfigurationLoaded path
  | ServerNotUp int
  | ServerUp
  | PdfFilesToProcess nat
  | AlreadyExists path
  | Processing path
  | ProcessingFailed int
  | ProcessingFailedFor path
  | OutputWillBeCreated path
  | OutputCreationFailed path
  | OutputCreated path
  | Runtime

text \<open>
  What a run does to the outside, in the order it happens. \<open>Created b k\<close> is the
  \<open>b\<close>-th \<open>ProcessPoolExecutor\<close> of the run, made with \<open>max_workers = k\<close>;
  \<open>Submitted b i p\<close> is \<open>executor.submit\<close> of the \<open>i\<close>-th path of that executor;
  \<open>Completed b i r\<close> is its future becoming done with outcome \<open>r\<close>.
\<close>

datatype event =
    Printed message
  | Posted request
  | Slept int
  | Wrote path string
  | Created nat int
  | Submitted nat nat path
  | Completed nat nat outcome

text \<open>
  The world outside the client. \<open>post\<close> is \<open>ApiClient.post\<close> of the module
  \<open>client\<close>, which is not part of the sources: given the requests sent so far and the
  current one it yields the response text and the status code, or \<open>None\<close> when the
  transport raises. \<open>get_status\<close> is the status code of \<open>requests.get\<close>, and
  \<open>can_write\<close> says whether the system lets a path be created or opened for writing.
  \<open>recursion_limit\<close> is the number of nested activations of \<open>process_pdf\<close> that the
  stack of the interpreter admits; one more raises \<open>RecursionError\<close>.
\<close>

record world =
  stat :: "path \<Rightarrow> fsnode option"
  can_write :: "path \<Rightarrow> bool"
  post :: "request list \<Rightarrow> request \<Rightarrow> (string \<times> int) option"
  get_status :: "string \<Rightarrow> int"
  recursion_limit :: nat
  trace :: "event list"

definition emit :: "event \<Rightarrow> world \<Rightarrow> world" where
  "emit e w = w\<lparr>trace := trace w @ [e]\<rparr>"

fun posted :: "event list \<Rightarrow> request list" where
  "posted [] = []"
| "posted (Posted r # es) = r # posted es"
| "posted (e # es) = posted es"

definition isfile :: "world \<Rightarrow> path \<Rightarrow> bool" where
  "isfile w p = (case stat w p of Some (File _) \<Rightarrow> True | _ \<Rightarrow> False)"

definition isdir :: "world \<Rightarrow> path \<Rightarrow> bool" where
  "isdir w p = (case stat w p of Some (Dir _) \<Rightarrow> True | _ \<Rightarrow> False)"

text \<open>\<open>open(p, "rb")\<close>: the bytes of a regular file, or \<open>None\<close> when it raises.\<close>

definition open_rb :: "world \<Rightarrow> path \<Rightarrow> string option" where
  "open_rb w p = (case stat w p of Some (File bytes) \<Rightarrow> Some bytes | _ \<Rightarrow> None)"

definition write_file :: "path \<Rightarrow> string \<Rightarrow> world \<Rightarrow> world" where
  "write_file p text w = emit (Wrote p text) (w\<lparr>stat := (stat w)(p \<mapsto> File text)\<rparr>)"

text \<open>
  \<open>os.walk(top)\<close>, top-down and without an error handler: a top that cannot be listed
  (it does not exist, or it is not a directory) yields nothing and raises nothing.
\<close>

fun walk_node :: "path \<Rightarrow> fsnode \<Rightarrow> (path \<times> string list \<times> string list) list" where
  "walk_node dirpath (File bytes) = []"
| "walk_node dirpath (Dir entries) =
     (dirpath, [name. (name, Dir sub) \<leftarrow> entries], [name. (name, File bytes) \<leftarrow> entries])
     # concat (map (\<lambda>e. walk_node (os_path_join dirpath (fst e)) (snd e)) entries)"

definition os_walk :: "world \<Rightarrow> path \<Rightarrow> (path \<times> string list \<times> string list) list" where
  "os_walk w dirpath =
     (case stat w dirpath of None \<Rightarrow> [] | Some node \<Rightarrow> walk_node dirpath node)"

section \<open>The client\<close>

record config =
  grobid_server :: string
  grobid_port :: "int option"
  batch_size :: int
  cfg_number_of_processes :: int
  sleep_time :: int
  coordinates :: string

record client =
  config :: config
  api_url :: string
  number_of_processes :: int
  generate_ids :: bool
  consolidate_header :: bool
  consolidate_citations :: bool
  force :: bool
  tei_coordinates :: bool
  service :: "string option"
  output_directory :: "path option"

text \<open>The keyword arguments of the constructor: \<open>None\<close> is a key that is not given.\<close>

record kwargs =
  kw_number_of_processes :: "int option"
  kw_generate_ids :: "bool option"
  kw_consolidate_header :: "bool option"
  kw_consolidate_citations :: "bool option"
  kw_force :: "bool option"
  kw_tei_coordinates :: "bool option"

definition kwargs_get :: "'a option \<Rightarrow> 'a \<Rightarrow> 'a" where
  "kwargs_get v d = (case v of None \<Rightarrow> d | Some x \<Rightarrow> x)"

definition is_alive :: "string \<Rightarrow> world \<Rightarrow> bool \<times> world" where
  "is_alive url w =
     (let status_url = url @ ''/api/isalive'';
          status_code = get_status w status_url
      in if status_code \<noteq> 200 then (False, emit (Printed (ServerNotUp status_code)) w)
         else (True, emit (Printed ServerUp) w))"

text \<open>
  \<open>GrobidClient.__init__\<close>; \<open>cfg\<close> is what \<open>json.loads\<close> gives for the file at
  \<open>config_path\<close>. The constructor of the base class \<open>ApiClient\<close>, which is not part of
  the sources, receives the server name and is taken to leave the fields below alone.
\<close>

definition init :: "path \<Rightarrow> config \<Rightarrow> kwargs \<Rightarrow> world \<Rightarrow> (py_error + client) \<times> world" where
  "init config_path cfg kw w =
     (let w1 = emit (Printed (ConfigurationLoaded config_path)) w;
          url0 = ''http://'' @ grobid_server cfg;
          url = (case grobid_port cfg of
                   None \<Rightarrow> url0
                 | Some port \<Rightarrow> if port \<noteq> 0 then url0 @ '':'' @ str_int port else url0);
          (alive, w2) = is_alive url w1
      in if \<not> alive then (Inl ConnectionError, w2)
         else (Inr \<lparr> config = cfg,
                     api_url = url,
                     number_of_processes =
                       kwargs_get (kw_number_of_processes kw) (cfg_number_of_processes cfg),
                     generate_ids = kwargs_get (kw_generate_ids kw) True,
                     consolidate_header = kwargs_get (kw_consolidate_header kw) True,
                     consolidate_citations = kwargs_get (kw_consolidate_citations kw) True,
                     force = kwargs_get (kw_force kw) True,
                     tei_coordinates = kwargs_get (kw_tei_coordinates kw) True,
                     service = None,
                     output_directory = None \<rparr>, w2))"

definition prepare_post_data :: "client \<Rightarrow> (string \<times> string) list" where
  "prepare_post_data self =
     (if generate_ids self then [(''generate_ids'', ''1'')] else [])
     @ (if consolidate_header self then [(''consolidate_header'', ''1'')] else [])
     @ (if consolidate_citations self then [(''consolidate_citations'', ''1'')] else [])
     @ (if tei_coordinates self then [(''tei_coordinates'', coordinates (config self))] else [])"

text \<open>The destination file that \<open>process_pdf\<close> computes for an input path.\<close>

definition stem :: "path \<Rightarrow> string" where
  "stem pdf_file_path = fst (os_path_splitext (ntpath_basename pdf_file_path))"

definition destination :: "client \<Rightarrow> path \<Rightarrow> path" where
  "destination self pdf_file_path =
     (case output_directory self of
        Some d \<Rightarrow> os_path_join d (stem pdf_file_path @ ''.tei.xml'')
      | None \<Rightarrow> os_path_join (ntpath_dirname pdf_file_path) (stem pdf_file_path @ ''.tei.xml''))"

text \<open>
  One activation of \<open>process_pdf\<close>, up to its return or up to the recursive call that
  follows a 503. \<open>time.sleep\<close> raises \<open>ValueError\<close> for a negative length.
\<close>

datatype frame_exit = Exit outcome | Recurse

definition process_pdf_frame :: "client \<Rightarrow> world \<Rightarrow> path \<Rightarrow> frame_exit \<times> client \<times> world" where
  "process_pdf_frame self w pdf_file_path =
     (let filename = destination self pdf_file_path in
      if \<not> force self \<and> isfile w filename
      then (Exit Returned, self, emit (Printed (AlreadyExists filename)) w)
      else
        (let w1 = emit (Printed (Processing pdf_file_path)) w in
         case open_rb w1 pdf_file_path of
           None \<Rightarrow> (Exit (Raised OSError), self, w1)
         | Some file \<Rightarrow>
             (let self1 = self\<lparr>api_url := api_url self @ ''/api/'' @ str_optional (service self)\<rparr>;
                  data = prepare_post_data self1;
                  req = \<lparr> req_url = api_url self1,
                          req_input = (pdf_file_path, file),
                          req_data = data,
                          req_headers = [(''Accept'', ''text/plain'')] \<rparr>;
                  w2 = emit (Posted req) w1
              in case post w1 (posted (trace w1)) req of
                   None \<Rightarrow> (Exit (Raised TransportError), self1, w2)
                 | Some (response_text, status_code) \<Rightarrow>
                     if status_code = 503
                     then (if sleep_time (config self1) < 0
                           then (Exit (Raised ValueError), self1, w2)
                           else (Recurse, self1, emit (Slept (sleep_time (config self1))) w2))
                     else if status_code \<noteq> 200
                     then (Exit Returned, self1, emit (Printed (ProcessingFailed status_code)) w2)
                     else if can_write w2 filename
                     then (Exit Returned, self1, write_file filename response_text w2)
                     else (Exit Returned, self1, emit (Printed (ProcessingFailedFor filename)) w2))))"

text \<open>
  \<open>process_pdf\<close>. The first argument is the number of nested activations that the
  stack still admits: the recursion \<open>return self.process_pdf(...)\<close> uses one at each
  call, and a call with none left raises \<open>RecursionError\<close>.
\<close>

fun process_pdf :: "nat \<Rightarrow> client \<Rightarrow> world \<Rightarrow> path \<Rightarrow> outcome \<times> client \<times> world" where
  "process_pdf 0 self w pdf_file_path = (Raised RecursionError, self, w)"
| "process_pdf (Suc fuel) self w pdf_file_path =
     (case process_pdf_frame self w pdf_file_path of
        (Exit r, self1, w1) \<Rightarrow> (r, self1, w1)
      | (Recurse, self1, w1) \<Rightarrow> process_pdf fuel self1 w1 pdf_file_path)"

section \<open>The worker pool\<close>

text \<open>
  A unit of work handed to \<open>executor.submit\<close>: the bound method is pickled with its
  object, so each unit runs \<open>process_pdf\<close> on its own copy of the client. A unit is
  waiting in the queue, in a worker between two activations of \<open>process_pdf\<close> (with
  the number of activations that its stack still admits), or done.
\<close>

datatype task = Pending client path | Running client path nat | Finished outcome

fun is_Running :: "task \<Rightarrow> bool" where
  "is_Running (Running self p depth) = True"
| "is_Running t = False"

fun is_Pending :: "task \<Rightarrow> bool" where
  "is_Pending (Pending self p) = True"
| "is_Pending t = False"

fun is_Finished :: "task \<Rightarrow> bool" where
  "is_Finished (Finished r) = True"
| "is_Finished t = False"

definition running :: "task list \<Rightarrow> nat list" where
  "running tasks = [i \<leftarrow> [0..<length tasks]. is_Running (tasks ! i)]"

definition pending :: "task list \<Rightarrow> nat list" where
  "pending tasks = [i \<leftarrow> [0..<length tasks]. is_Pending (tasks ! i)]"

text \<open>
  The units that can make the next move: those inside a worker, and the head of the
  queue when one of the \<open>max_workers\<close> workers is free.
\<close>

definition runnable :: "int \<Rightarrow> task list \<Rightarrow> nat list" where
  "runnable max_workers tasks =
     running tasks
     @ (if int (length (running tasks)) < max_workers then take 1 (pending tasks) else [])"

text \<open>
  One activation of \<open>process_pdf\<close> inside a worker. A unit ends when the activation
  returns or raises, and also when the stack admits no further activation.
\<close>

definition advance :: "nat \<Rightarrow> nat \<Rightarrow> client \<Rightarrow> path \<Rightarrow> nat \<Rightarrow> world \<Rightarrow> task \<times> world" where
  "advance b i self p depth w =
     (case depth of
        0 \<Rightarrow> (Finished (Raised RecursionError), emit (Completed b i (Raised RecursionError)) w)
      | Suc d \<Rightarrow>
          (case process_pdf_frame self w p of
             (Exit r, self1, w1) \<Rightarrow> (Finished r, emit (Completed b i r) w1)
           | (Recurse, self1, w1) \<Rightarrow> (Running self1 p d, w1)))"

fun step_task :: "nat \<Rightarrow> nat \<Rightarrow> task \<Rightarrow> world \<Rightarrow> task \<times> world" where
  "step_task b i (Pending self p) w = advance b i self p (recursion_limit w) w"
| "step_task b i (Running self p depth) w = advance b i self p depth w"
| "step_task b i (Finished r) w = (Finished r, w)"

text \<open>
  The pool at work, until no unit can move. The processes run in parallel; the model
  interleaves their activations of \<open>process_pdf\<close>, and \<open>sched\<close> picks at each step
  which of the runnable units moves, so that every interleaving is the run of some
  \<open>sched\<close>. The fuel bounds the number of steps of the model; it is not a quantity of
  the program.
\<close>

fun run_pool :: "nat \<Rightarrow> (nat \<Rightarrow> nat) \<Rightarrow> nat \<Rightarrow> nat \<Rightarrow> int \<Rightarrow> task list \<Rightarrow> world
                  \<Rightarrow> outcome \<times> task list \<times> world" where
  "run_pool 0 sched t b max_workers tasks w =
     (if runnable max_workers tasks = [] then (Returned, tasks, w) else (OutOfFuel, tasks, w))"
| "run_pool (Suc fuel) sched t b max_workers tasks w =
     (if runnable max_workers tasks = [] then (Returned, tasks, w)
      else
        (let rs = runnable max_workers tasks;
             i = rs ! (sched t mod length rs);
             (task1, w1) = step_task b i (tasks ! i) w
         in run_pool fuel sched (Suc t) b max_workers (tasks[i := task1]) w1))"

fun executors :: "event list \<Rightarrow> nat" where
  "executors [] = 0"
| "executors (Created b k # es) = Suc (executors es)"
| "executors (e # es) = executors es"

fun submit_all :: "nat \<Rightarrow> nat \<Rightarrow> path list \<Rightarrow> world \<Rightarrow> world" where
  "submit_all b i [] w = w"
| "submit_all b i (p # ps) w = submit_all b (Suc i) ps (emit (Submitted b i p) w)"

text \<open>
  \<open>process_batch\<close>. The name \<open>n\<close> it reads is a global of the module, bound only by
  the command-line block: \<open>glob_n\<close> is its value, \<open>None\<close> when the module is imported.
  The executor refuses a \<open>max_workers\<close> that is not positive. Leaving the \<open>with\<close> block
  waits for every future (\<open>shutdown(wait=True)\<close>); what a unit raises stays in its
  future, which nobody reads. Every batch has the whole fuel for its pool.
\<close>

definition process_batch :: "nat \<Rightarrow> (nat \<Rightarrow> nat \<Rightarrow> nat) \<Rightarrow> int option \<Rightarrow> client \<Rightarrow> world
                               \<Rightarrow> path list \<Rightarrow> outcome \<times> world" where
  "process_batch fuel sched glob_n self w pdf_files_paths =
     (let w1 = emit (Printed (PdfFilesToProcess (length pdf_files_paths))) w in
      case glob_n of
        None \<Rightarrow> (Raised NameError, w1)
      | Some k \<Rightarrow>
          if k \<le> 0 then (Raised ValueError, w1)
          else
            (let b = executors (trace w1);
                 w2 = emit (Created b k) w1;
                 w3 = submit_all b 0 pdf_files_paths w2;
                 (r, tasks, w4) = run_pool fuel (sched b) 0 b k
                                    (map (Pending self) pdf_files_paths) w3
             in (r, w4)))"

section \<open>Discovery and batching\<close>

definition is_pdf :: "string \<Rightarrow> bool" where
  "is_pdf filename = (endswith filename ''.pdf'' \<or> endswith filename ''.PDF'')"

text \<open>
  The inner loop of \<open>process\<close> over the file names of one directory, with the buffer
  \<open>pdf_files_paths\<close>; an exception of \<open>process_batch\<close> ends the run.
\<close>

fun process_filenames :: "nat \<Rightarrow> (nat \<Rightarrow> nat \<Rightarrow> nat) \<Rightarrow> int option \<Rightarrow> client \<Rightarrow> path
                            \<Rightarrow> string list \<Rightarrow> path list \<Rightarrow> world
                            \<Rightarrow> outcome \<times> path list \<times> world" where
  "process_filenames fuel sched glob_n self directory_path [] pdf_files_paths w =
     (Returned, pdf_files_paths, w)"
| "process_filenames fuel sched glob_n self directory_path (filename # rest) pdf_files_paths w =
     (if is_pdf filename then
        (let paths1 = pdf_files_paths @ [os_sep_join [directory_path, filename]] in
         if int (length paths1) = batch_size (config self) then
           (case process_batch fuel sched glob_n self w paths1 of
              (Returned, w1) \<Rightarrow>
                process_filenames fuel sched glob_n self directory_path rest [] w1
            | (r, w1) \<Rightarrow> (r, paths1, w1))
         else process_filenames fuel sched glob_n self directory_path rest paths1 w)
      else process_filenames fuel sched glob_n self directory_path rest pdf_files_paths w)"

text \<open>The outer loop over the triples of \<open>os.walk\<close>.\<close>

fun process_walk :: "nat \<Rightarrow> (nat \<Rightarrow> nat \<Rightarrow> nat) \<Rightarrow> int option \<Rightarrow> client
                       \<Rightarrow> (path \<times> string list \<times> string list) list \<Rightarrow> path list \<Rightarrow> world
                       \<Rightarrow> outcome \<times> path list \<times> world" where
  "process_walk fuel sched glob_n self [] pdf_files_paths w = (Returned, pdf_files_paths, w)"
| "process_walk fuel sched glob_n self ((directory_path, directory_names, filenames) # rest)
       pdf_files_paths w =
     (case process_filenames fuel sched glob_n self directory_path filenames pdf_files_paths w of
        (Returned, paths1, w1) \<Rightarrow> process_walk fuel sched glob_n self rest paths1 w1
      | (r, paths1, w1) \<Rightarrow> (r, paths1, w1))"

text \<open>
  \<open>process\<close>. The listing of \<open>os.walk\<close> is the one of the tree at the start: the run
  only adds files named \<open>*.tei.xml\<close>, which the filter does not take. \<open>os.walk(None)\<close>
  raises \<open>TypeError\<close>.
\<close>

definition process :: "nat \<Rightarrow> (nat \<Rightarrow> nat \<Rightarrow> nat) \<Rightarrow> int option \<Rightarrow> client \<Rightarrow> world
                         \<Rightarrow> string \<Rightarrow> path option \<Rightarrow> path option
                         \<Rightarrow> outcome \<times> client \<times> world" where
  "process fuel sched glob_n self0 w service_name input_directory output_dir =
     (let self = self0\<lparr>service := Some service_name, output_directory := output_dir\<rparr> in
      case input_directory of
        None \<Rightarrow> (Raised TypeError, self, w)
      | Some root \<Rightarrow>
          (case process_walk fuel sched glob_n self (os_walk w root) [] w of
             (Returned, pdf_files_paths, w1) \<Rightarrow>
               if length pdf_files_paths > 0
               then (let (r, w2) = process_batch fuel sched glob_n self w1 pdf_files_paths
                     in (r, self, w2))
               else (Returned, self, w1)
           | (r, pdf_files_paths, w1) \<Rightarrow> (r, self, w1)))"

section \<open>The command line\<close>

text \<open>
  The namespace of \<open>parse_args\<close>. \<open>args.n\<close> is the integer default or the text given on
  the command line.
\<close>

record args =
  arg_service :: string
  arg_input :: "path option"
  arg_output :: "path option"
  arg_config :: path
  arg_n :: "int + string"
  arg_generateIDs :: bool
  arg_consolidate_header :: bool
  arg_consolidate_citations :: bool
  arg_force :: bool
  arg_teiCoordinates :: bool

text \<open>
  What \<open>parse_args\<close> yields when the command line holds the positional argument only:
  the \<open>default\<close> of each option, and \<open>False\<close> for each \<open>store_true\<close> flag.
\<close>

definition parser_defaults :: "string \<Rightarrow> args" where
  "parser_defaults service_name =
     \<lparr> arg_service = service_name,
       arg_input = None,
       arg_output = None,
       arg_config = ''./config.json'',
       arg_n = Inl 10,
       arg_generateIDs = False,
       arg_consolidate_header = False,
       arg_consolidate_citations = False,
       arg_force = False,
       arg_teiCoordinates = False \<rparr>"

text \<open>
  The global \<open>n\<close> of the command-line block; \<open>py_int\<close> is \<open>int\<close> on a text, \<open>None\<close>
  when it raises \<open>ValueError\<close>.
\<close>

definition main_n :: "(string \<Rightarrow> int option) \<Rightarrow> args \<Rightarrow> int" where
  "main_n py_int a =
     (case arg_n a of
        Inl i \<Rightarrow> i
      | Inr s \<Rightarrow> (case py_int s of Some i \<Rightarrow> i | None \<Rightarrow> 10))"

definition main_options :: "(string \<Rightarrow> int option) \<Rightarrow> args \<Rightarrow> kwargs" where
  "main_options py_int a =
     \<lparr> kw_number_of_processes = Some (main_n py_int a),
       kw_generate_ids = Some (arg_generateIDs a),
       kw_consolidate_header = Some (arg_consolidate_header a),
       kw_consolidate_citations = Some (arg_consolidate_citations a),
       kw_force = Some (arg_force a),
       kw_tei_coordinates = Some (arg_teiCoordinates a) \<rparr>"

text \<open>No keyword argument given: \<open>GrobidClient(config_path)\<close>.\<close>

definition no_kwargs :: kwargs where
  "no_kwargs =
     \<lparr> kw_number_of_processes = None,
       kw_generate_ids = None,
       kw_consolidate_header = None,
       kw_consolidate_citations = None,
       kw_force = None,
       kw_tei_coordinates = None \<rparr>"

text \<open>The creation of the output directory, when one is given and is not there.\<close>

definition make_output_directory :: "path option \<Rightarrow> world \<Rightarrow> world" where
  "make_output_directory output w =
     (case output of
        None \<Rightarrow> w
      | Some d \<Rightarrow>
          if \<not> isdir w d then
            (let w1 = emit (Printed (OutputWillBeCreated d)) w in
             if can_write w1 d
             then emit (Printed (OutputCreated d)) (w1\<lparr>stat := (stat w1)(d \<mapsto> Dir [])\<rparr>)
             else emit (Printed (OutputCreationFailed d)) w1)
          else w)"

text \<open>
  The command-line block after \<open>parse_args\<close>; \<open>cfg\<close> is the content of the
  configuration file. The run time that it reports at the end is not modelled, only
  the report.
\<close>

definition main :: "(string \<Rightarrow> int option) \<Rightarrow> nat \<Rightarrow> (nat \<Rightarrow> nat \<Rightarrow> nat) \<Rightarrow> config \<Rightarrow> args \<Rightarrow> world
                      \<Rightarrow> outcome \<times> world" where
  "main py_int fuel sched cfg a w =
     (let n = main_n py_int a;
          w0 = make_output_directory (arg_output a) w
      in case init (arg_config a) cfg (main_options py_int a) w0 of
           (Inl e, w1) \<Rightarrow> (Raised e, w1)
         | (Inr client, w1) \<Rightarrow>
             (case process fuel sched (Some n) client w1
                     (arg_service a) (arg_input a) (arg_output a) of
                (Returned, client1, w2) \<Rightarrow> (Returned, emit (Printed Runtime) w2)
              | (r, client1, w2) \<Rightarrow> (r, w2)))"

section \<open>Observations on a trace\<close>

fun submitted :: "event list \<Rightarrow> path list" where
  "submitted [] = []"
| "submitted (Submitted b i p # es) = p # submitted es"
| "submitted (e # es) = submitted es"

text \<open>The paths submitted before the next executor is created.\<close>

fun head_batch :: "event list \<Rightarrow> path list" where
  "head_batch [] = []"
| "head_batch (Created b k # es) = []"
| "head_batch (Submitted b i p # es) = p # head_batch es"
| "head_batch (e # es) = head_batch es"

text \<open>The executors of a trace, each with its \<open>max_workers\<close> and the paths submitted to it.\<close>

fun pools_of :: "event list \<Rightarrow> (int \<times> path list) list" where
  "pools_of [] = []"
| "pools_of (Created b k # es) = (k, head_batch es) # pools_of es"
| "pools_of (e # es) = pools_of es"

text \<open>The events of input and output, as opposed to those of the executors.\<close>

fun io_event :: "event \<Rightarrow> bool" where
  "io_event (Created b k) = False"
| "io_event (Submitted b i p) = False"
| "io_event (Completed b i r) = False"
| "io_event e = True"

text \<open>The events that the pool of executor \<open>b\<close> with \<open>n\<close> units can add.\<close>

fun pool_event :: "nat \<Rightarrow> nat \<Rightarrow> event \<Rightarrow> bool" where
  "pool_event b n (Completed b' i r) = (b' = b \<and> i < n)"
| "pool_event b n e = io_event e"

fun submit_events :: "nat \<Rightarrow> nat \<Rightarrow> path list \<Rightarrow> event list" where
  "submit_events b i [] = []"
| "submit_events b i (p # ps) = Submitted b i p # submit_events b (Suc i) ps"

text \<open>The units submitted to executor \<open>b\<close>, and whether unit \<open>j\<close> of it is done.\<close>

fun submitted_in :: "event list \<Rightarrow> nat \<Rightarrow> nat list" where
  "submitted_in [] b = []"
| "submitted_in (Submitted b' j p # es) b =
     (if b' = b then j # submitted_in es b else submitted_in es b)"
| "submitted_in (e # es) b = submitted_in es b"

fun completed_in :: "event list \<Rightarrow> nat \<Rightarrow> nat \<Rightarrow> bool" where
  "completed_in [] b j = False"
| "completed_in (Completed b' j' r # es) b j = ((b' = b \<and> j' = j) \<or> completed_in es b j)"
| "completed_in (e # es) b j = completed_in es b j"

text \<open>
  Batches follow one another: wherever a trace \<open>tr\<close> submits a unit to executor
  \<open>b + 1\<close>, every unit that \<open>tr\<close> submits to executor \<open>b\<close> is done in the part \<open>pre\<close>
  of the trace before that point.
\<close>

fun earlier_done :: "event list \<Rightarrow> event list \<Rightarrow> event \<Rightarrow> bool" where
  "earlier_done tr pre (Submitted (Suc b) i p) =
     (\<forall>j \<in> set (submitted_in tr b). completed_in pre b j)"
| "earlier_done tr pre e = True"

definition batches_in_order :: "event list \<Rightarrow> bool" where
  "batches_in_order tr = (\<forall>y < length tr. earlier_done tr (take y tr) (tr ! y))"

text \<open>
  A trace is settled when every unit it submits belongs to an executor it created and
  is done in it.
\<close>

definition settled :: "event list \<Rightarrow> bool" where
  "settled tr =
     (\<forall>b. \<forall>j \<in> set (submitted_in tr b). b < executors tr \<and> completed_in tr b j)"


text \<open>The paths that discovery takes from the triples of \<open>os.walk\<close>, in order.\<close>

definition pdf_paths :: "(path \<times> string list \<times> string list) list \<Rightarrow> path list" where
  "pdf_paths triples =
     concat (map (\<lambda>(directory_path, directory_names, filenames).
                    map (\<lambda>filename. os_sep_join [directory_path, filename])
                        (filter is_pdf filenames))
                 triples)"


text \<open>A comparison of the end of a name that ignores the case of ASCII letters.\<close>

definition endswith_nocase :: "string \<Rightarrow> string \<Rightarrow> bool" where
  "endswith_nocase s suf = endswith (map ascii_upper s) (map ascii_upper suf)"

section \<open>Example runs\<close>

definition example_tree :: fsnode where
  "example_tree =
     Dir [(''a.pdf'', File ''A''), (''b.PDF'', File ''B''), (''c.Pdf'', File ''C''),
          (''sub'', Dir [(''d.pdf'', File ''D'')])]"

text \<open>A service that is busy for the first two requests it receives.\<close>

definition example_world :: world where
  "example_world =
     \<lparr> stat = map_of [(''in'', example_tree), (''in/a.pdf'', File ''A''),
                      (''in/b.PDF'', File ''B''), (''in/c.Pdf'', File ''C''),
                      (''in/sub/d.pdf'', File ''D'')],
       can_write = (\<lambda>p. True),
       post = (\<lambda>log r. if length log < 2 then Some ('''', 503) else Some (''<TEI/>'', 200)),
       get_status = (\<lambda>u. 200),
       recursion_limit = 4,
       trace = [] \<rparr>"

definition example_config :: config where
  "example_config =
     \<lparr> grobid_server = ''localhost'', grobid_port = Some 8070, batch_size = 2,
       cfg_number_of_processes = 4, sleep_time = 5, coordinates = ''persName'' \<rparr>"

definition example_client :: client where
  "example_client =
     \<lparr> config = example_config,
       api_url = ''http://localhost:8070'',
       number_of_processes = 4,
       generate_ids = True,
       consolidate_header = True,
       consolidate_citations = True,
       force = True,
       tei_coordinates = True,
       service = Some ''processHeaderDocument'',
       output_directory = None \<rparr>"

text \<open>The same tree with a service that is never busy, after an earlier run on \<open>a.pdf\<close>.\<close>

definition ready_world :: world where
  "ready_world =
     example_world\<lparr> stat := (stat example_world)(''in/a.tei.xml'' \<mapsto> File ''old''),
                    post := (\<lambda>log r. Some (''<TEI/>'', 200)) \<rparr>"

text \<open>The clients that the constructor makes without keyword arguments and from the
  command line without flags.\<close>

definition library_client :: client where
  "library_client = example_client\<lparr>service := None\<rparr>"

definition cli_client :: client where
  "cli_client =
     example_client\<lparr> number_of_processes := 10, generate_ids := False,
                     consolidate_header := False, consolidate_citations := False,
                     force := False, tei_coordinates := False, service := None \<rparr>"

definition started_world :: world where
  "started_world =
     example_world\<lparr>trace := [Printed (ConfigurationLoaded ''./config.json''), Printed ServerUp]\<rparr>"

text \<open>A run from the command line over the example tree, with two workers.\<close>

definition example_result :: "outcome \<times> client \<times> world" where
  "example_result =
     process 10 (\<lambda>b t. 0) (Some 2) example_client example_world
       ''processHeaderDocument'' (Some ''in'') None"

section \<open>Skipping an input whose destination exists\<close>

lemma posted_append: "posted (es @ fs) = posted es @ posted fs"
  by (induction es rule: posted.induct) simp_all

text \<open>
  C4. When \<open>force\<close> is false and the destination of an input already is a regular
  file, \<open>process_pdf\<close> returns at once: it reports the skip, leaves the client as it
  was, and sends no request for that input.
\<close>

theorem process_pdf_skips_existing:
  assumes "\<not> force self" and "isfile w (destination self p)"
  shows "process_pdf (Suc fuel) self w p
           = (Returned, self, emit (Printed (AlreadyExists (destination self p))) w)
         \<and> posted (trace (snd (snd (process_pdf (Suc fuel) self w p)))) = posted (trace w)"
  using assms by (simp add: process_pdf_frame_def emit_def posted_append)

lemma example_destination:
  "destination (example_client\<lparr>force := False\<rparr>) ''in/a.pdf'' = ''in/a.tei.xml''"
  by code_simp

theorem process_pdf_skips_existing_witness:
  "\<not> force (example_client\<lparr>force := False\<rparr>)
   \<and> isfile ready_world (destination (example_client\<lparr>force := False\<rparr>) ''in/a.pdf'')
   \<and> process_pdf (Suc 0) (example_client\<lparr>force := False\<rparr>) ready_world ''in/a.pdf''
       = (Returned, example_client\<lparr>force := False\<rparr>,
          emit (Printed (AlreadyExists ''in/a.tei.xml'')) ready_world)
   \<and> posted (trace (snd (snd (process_pdf (Suc 0) (example_client\<lparr>force := False\<rparr>)
                                 ready_world ''in/a.pdf''))))
       = posted (trace ready_world)"
proof -
  let ?c = "example_client\<lparr>force := False\<rparr>"
  have f: "\<not> force ?c" by simp
  have i: "isfile ready_world (destination ?c ''in/a.pdf'')"
    by (simp add: example_destination isfile_def ready_world_def)
  show ?thesis
    using f i process_pdf_skips_existing [OF f i, of 0]
    by (simp add: example_destination emit_def posted_append)
qed

section \<open>The defaults of the option flags\<close>

lemma init_flags:
  assumes "init config_path cfg kw w = (Inr c, w1)"
  shows "generate_ids c = kwargs_get (kw_generate_ids kw) True"
    and "consolidate_header c = kwargs_get (kw_consolidate_header kw) True"
    and "consolidate_citations c = kwargs_get (kw_consolidate_citations kw) True"
    and "force c = kwargs_get (kw_force kw) True"
    and "tei_coordinates c = kwargs_get (kw_tei_coordinates kw) True"
    and "number_of_processes c
           = kwargs_get (kw_number_of_processes kw) (cfg_number_of_processes cfg)"
  using assms by (auto simp: init_def Let_def split: prod.splits if_splits)

lemma force_overwrites:
  assumes "force self" and "open_rb w p = Some bytes"
      and "\<And>log r. post w log r = Some (text, 200)"
      and "can_write w (destination self p)"
  shows "stat (snd (snd (process_pdf (Suc fuel) self w p))) (destination self p)
           = Some (File text)"
  using assms
  by (simp add: process_pdf_frame_def Let_def emit_def open_rb_def write_file_def)

text \<open>
  C10. A client constructed without keyword arguments has \<open>generate_ids\<close>,
  \<open>consolidate_header\<close>, \<open>consolidate_citations\<close>, \<open>force\<close> and \<open>tei_coordinates\<close> all
  true, so that \<open>process_pdf\<close> writes the response over a destination whether or not it
  exists; a client constructed by the command-line block from a command line without
  flags has all five false.
\<close>

theorem constructor_defaults:
  assumes "init config_path cfg no_kwargs w = (Inr c, w1)"
      and "init config_path cfg (main_options py_int (parser_defaults service_name)) w
             = (Inr c', w2)"
      and "open_rb w3 p = Some bytes"
      and "\<And>log r. post w3 log r = Some (text, 200)"
      and "can_write w3 (destination c p)"
  shows "(generate_ids c \<and> consolidate_header c \<and> consolidate_citations c \<and> force c
          \<and> tei_coordinates c)
       \<and> stat (snd (snd (process_pdf (Suc fuel) c w3 p))) (destination c p) = Some (File text)
       \<and> (\<not> generate_ids c' \<and> \<not> consolidate_header c' \<and> \<not> consolidate_citations c'
          \<and> \<not> force c' \<and> \<not> tei_coordinates c')"
proof -
  have t: "generate_ids c \<and> consolidate_header c \<and> consolidate_citations c \<and> force c
          \<and> tei_coordinates c"
    using init_flags [OF assms(1)] by (simp add: no_kwargs_def kwargs_get_def)
  have f: "\<not> generate_ids c' \<and> \<not> consolidate_header c' \<and> \<not> consolidate_citations c'
          \<and> \<not> force c' \<and> \<not> tei_coordinates c'"
    using init_flags [OF assms(2)]
    by (simp add: main_options_def parser_defaults_def kwargs_get_def)
  from t have "force c" by simp
  from force_overwrites [OF this assms(3) assms(4) assms(5)] t f show ?thesis by simp
qed

lemma example_port: "str_int 8070 = ''8070''"
  by (simp add: str_int_def)

lemma example_init_library:
  "init ''./config.json'' example_config no_kwargs example_world
     = (Inr library_client, started_world)"
  by (simp add: init_def is_alive_def emit_def example_world_def example_config_def
      no_kwargs_def kwargs_get_def library_client_def example_client_def started_world_def
      example_port)

lemma example_init_cli:
  "init ''./config.json'' example_config
        (main_options (\<lambda>s. None) (parser_defaults ''processHeaderDocument'')) example_world
     = (Inr cli_client, started_world)"
  by (simp add: init_def is_alive_def emit_def example_world_def example_config_def
      main_options_def main_n_def parser_defaults_def kwargs_get_def cli_client_def
      example_client_def started_world_def example_port)

theorem constructor_defaults_witness:
  "init ''./config.json'' example_config no_kwargs example_world
     = (Inr library_client, started_world)
   \<and> init ''./config.json'' example_config
        (main_options (\<lambda>s. None) (parser_defaults ''processHeaderDocument'')) example_world
     = (Inr cli_client, started_world)
   \<and> open_rb ready_world ''in/a.pdf'' = Some ''A''
   \<and> can_write ready_world (destination library_client ''in/a.pdf'')
   \<and> force library_client
   \<and> isfile ready_world (destination library_client ''in/a.pdf'')
   \<and> stat (snd (snd (process_pdf (Suc 0) library_client ready_world ''in/a.pdf'')))
        (destination library_client ''in/a.pdf'') = Some (File ''<TEI/>'')
   \<and> \<not> force cli_client"
proof -
  have o: "open_rb ready_world ''in/a.pdf'' = Some ''A''"
    by (simp add: open_rb_def ready_world_def example_world_def)
  have p: "\<And>log r. post ready_world log r = Some (''<TEI/>'', 200)"
    by (simp add: ready_world_def)
  have c: "can_write ready_world (destination library_client ''in/a.pdf'')"
    by (simp add: ready_world_def example_world_def)
  have d: "destination library_client ''in/a.pdf'' = ''in/a.tei.xml''"
    by code_simp
  have i: "isfile ready_world (destination library_client ''in/a.pdf'')"
    by (simp add: d isfile_def ready_world_def)
  show ?thesis
    using constructor_defaults [OF example_init_library example_init_cli o p c, of 0]
      example_init_library example_init_cli o c i
    by simp
qed

section \<open>Destination paths\<close>










section \<open>The address of the service\<close>

text \<open>
  C3, evaluated where the code departs from it. The service answers 503 to the first two
  requests and 200 to the third. \<open>process_pdf\<close> returns after three requests for
  \<open>in/a.pdf\<close>, but each is sent to a different address, since every activation
  appends \<open>/api/<service>\<close> to \<open>self.api_url\<close>.
\<close>

theorem resubmission_changes_url:
  "fst (process_pdf 3 example_client example_world ''in/a.pdf'') = Returned
   \<and> map req_url (posted (trace (snd (snd (process_pdf 3 example_client example_world
                                              ''in/a.pdf'')))))
     = [''http://localhost:8070/api/processHeaderDocument'',
        ''http://localhost:8070/api/processHeaderDocument/api/processHeaderDocument'',
        ''http://localhost:8070/api/processHeaderDocument/api/processHeaderDocument/api/processHeaderDocument'']"
  by code_simp

text \<open>
  C5, evaluated where the code departs from it. One call of \<open>process_pdf\<close> that reaches
  the service leaves the client with another \<open>api_url\<close> than it had.
\<close>

theorem process_pdf_changes_api_url:
  "api_url example_client = ''http://localhost:8070''
   \<and> api_url (fst (snd (process_pdf 1 example_client ready_world ''in/a.pdf'')))
       = ''http://localhost:8070/api/processHeaderDocument''"
  by code_simp

section \<open>The size of the pool\<close>

text \<open>
  C7, evaluated where the code departs from it. A client made by a program that imports
  the module has \<open>number_of_processes = 4\<close>, but \<open>process_batch\<close> reads the global \<open>n\<close>,
  which is unbound there: the run ends with \<open>NameError\<close> and creates no pool.
\<close>

theorem pool_size_reads_global:
  "number_of_processes example_client = 4
   \<and> fst (process 5 (\<lambda>b t. 0) None example_client example_world
             ''processHeaderDocument'' (Some ''in'') None) = Raised NameError
   \<and> pools_of (trace (snd (snd (process 5 (\<lambda>b t. 0) None example_client example_world
                                     ''processHeaderDocument'' (Some ''in'') None)))) = []"
  by code_simp

section \<open>An input root that cannot be listed\<close>




text \<open>
  From the command line the two values agree: the block binds \<open>n\<close>, passes it to the
  constructor as \<open>number_of_processes\<close>, and \<open>process_batch\<close> then reads the same \<open>n\<close>.
\<close>

lemma command_line_pool_size:
  assumes "init (arg_config a) cfg (main_options py_int a) w = (Inr c, w1)"
  shows "number_of_processes c = main_n py_int a"
  using init_flags(6) [OF assms] by (simp add: main_options_def kwargs_get_def)

section \<open>The trace of a pool and of a batch\<close>


lemma emit_trace [simp]: "trace (emit e w) = trace w @ [e]"
  by (simp add: emit_def)

lemma write_file_trace [simp]: "trace (write_file p text w) = trace w @ [Wrote p text]"
  by (simp add: write_file_def)

lemma frame_trace:
  "\<exists>es. trace (snd (snd (process_pdf_frame self w p))) = trace w @ es \<and> list_all io_event es"
  by (auto simp: process_pdf_frame_def Let_def split: option.splits)

lemma io_pool_event: "io_event e \<Longrightarrow> pool_event b n e"
  by (cases e) auto

lemma advance_trace:
  assumes "advance b i self p depth w = (t1, w1)" and "i < n"
  shows "\<exists>es. trace w1 = trace w @ es \<and> list_all (pool_event b n) es"
proof (cases depth)
  case 0
  with assms(1) have "w1 = emit (Completed b i (Raised RecursionError)) w"
    by (simp add: advance_def)
  then have "trace w1 = trace w @ [Completed b i (Raised RecursionError)]" by simp
  moreover have "list_all (pool_event b n) [Completed b i (Raised RecursionError)]"
    using assms(2) by simp
  ultimately show ?thesis by blast
next
  case (Suc d)
  obtain x self1 w0 where f: "process_pdf_frame self w p = (x, self1, w0)"
    by (cases "process_pdf_frame self w p")
  from frame_trace [of self w p] f obtain es where
    es: "trace w0 = trace w @ es" "list_all io_event es" by auto
  then have pe: "list_all (pool_event b n) es"
    by (auto simp: list_all_iff io_pool_event)
  show ?thesis
  proof (cases x)
    case (Exit r)
    with assms f Suc have "w1 = emit (Completed b i r) w0" by (simp add: advance_def)
    then have "trace w1 = trace w @ (es @ [Completed b i r])" using es by simp
    moreover have "list_all (pool_event b n) (es @ [Completed b i r])"
      using pe assms(2) by simp
    ultimately show ?thesis by blast
  next
    case Recurse
    with assms f Suc have "w1 = w0" by (simp add: advance_def)
    then show ?thesis using es pe by blast
  qed
qed

lemma step_task_trace:
  assumes "step_task b i t w = (t1, w1)" and "i < n"
  shows "\<exists>es. trace w1 = trace w @ es \<and> list_all (pool_event b n) es"
proof (cases t)
  case (Pending self p)
  then show ?thesis using assms advance_trace by simp
next
  case (Running self p depth)
  then show ?thesis using assms advance_trace by simp
next
  case (Finished r)
  then have "w1 = w" using assms by simp
  then show ?thesis by simp
qed

lemma running_lt: "i \<in> set (running tasks) \<Longrightarrow> i < length tasks"
  by (auto simp: running_def)

lemma pending_lt: "i \<in> set (pending tasks) \<Longrightarrow> i < length tasks"
  by (auto simp: pending_def)

lemma runnable_lt: "i \<in> set (runnable k tasks) \<Longrightarrow> i < length tasks"
  by (auto simp: runnable_def running_lt pending_lt dest: in_set_takeD split: if_splits)

lemma runnable_pick:
  assumes "runnable k tasks \<noteq> []"
  shows "runnable k tasks ! (c mod length (runnable k tasks)) < length tasks"
proof -
  have "c mod length (runnable k tasks) < length (runnable k tasks)"
    using assms by simp
  then have "runnable k tasks ! (c mod length (runnable k tasks)) \<in> set (runnable k tasks)"
    by (rule nth_mem)
  then show ?thesis by (rule runnable_lt)
qed

lemma run_pool_trace:
  "run_pool fuel sched t b k tasks w = (r, tasks1, w1) \<Longrightarrow>
     \<exists>es. trace w1 = trace w @ es \<and> list_all (pool_event b (length tasks)) es"
proof (induction fuel arbitrary: t tasks w)
  case 0
  then have "w1 = w" by (simp split: if_splits)
  then show ?case by simp
next
  case (Suc fuel)
  show ?case
  proof (cases "runnable k tasks = []")
    case True
    with Suc.prems have "w1 = w" by simp
    then show ?thesis by simp
  next
    case False
    define i where "i = runnable k tasks ! (sched t mod length (runnable k tasks))"
    have il: "i < length tasks" unfolding i_def using False by (rule runnable_pick)
    obtain t2 w2 where st: "step_task b i (tasks ! i) w = (t2, w2)"
      by (cases "step_task b i (tasks ! i) w")
    from Suc.prems False st
    have rec: "run_pool fuel sched (Suc t) b k (tasks[i := t2]) w2 = (r, tasks1, w1)"
      by (simp add: Let_def i_def)
    from step_task_trace [OF st il] obtain es where
      es: "trace w2 = trace w @ es" "list_all (pool_event b (length tasks)) es" by blast
    from Suc.IH [OF rec] obtain fs where
      fs: "trace w1 = trace w2 @ fs" "list_all (pool_event b (length tasks)) fs" by auto
    have "trace w1 = trace w @ (es @ fs)" using es fs by simp
    moreover have "list_all (pool_event b (length tasks)) (es @ fs)" using es fs by simp
    ultimately show ?thesis by blast
  qed
qed

lemma submit_all_trace: "trace (submit_all b i ps w) = trace w @ submit_events b i ps"
  by (induction ps arbitrary: i w) simp_all

lemma process_batch_raises:
  assumes "\<not> (\<exists>k. glob_n = Some k \<and> 0 < k)"
  shows "\<exists>e. process_batch fuel sched glob_n self w paths
           = (Raised e, emit (Printed (PdfFilesToProcess (length paths))) w)"
  using assms by (cases glob_n) (auto simp: process_batch_def Let_def)

lemma executors_append: "executors (es @ fs) = executors es + executors fs"
  by (induction es rule: executors.induct) simp_all

lemma process_batch_trace:
  assumes "process_batch fuel sched glob_n self w paths = (r, w1)"
      and "glob_n = Some k" and "0 < k"
  shows "\<exists>es. trace w1 = trace w @ [Printed (PdfFilesToProcess (length paths)),
                                     Created (executors (trace w)) k]
                          @ submit_events (executors (trace w)) 0 paths @ es
              \<and> list_all (pool_event (executors (trace w)) (length paths)) es"
proof -
  define b where "b = executors (trace w)"
  define w3 where "w3 = submit_all b 0 paths
                          (emit (Created b k) (emit (Printed (PdfFilesToProcess (length paths))) w))"
  have eb: "executors (trace (emit (Printed (PdfFilesToProcess (length paths))) w)) = b"
    by (simp add: b_def executors_append)
  obtain r2 tasks2 w4 where rp:
    "run_pool fuel (sched b) 0 b k (map (Pending self) paths) w3 = (r2, tasks2, w4)"
    by (cases "run_pool fuel (sched b) 0 b k (map (Pending self) paths) w3")
  have "process_batch fuel sched glob_n self w paths = (r2, w4)"
    using assms(2,3) rp eb unfolding process_batch_def w3_def by (simp add: Let_def)
  with assms(1) have w: "w1 = w4" by simp
  from run_pool_trace [OF rp] obtain es where
    es: "trace w4 = trace w3 @ es" "list_all (pool_event b (length paths)) es" by auto
  have "trace w3 = trace w @ [Printed (PdfFilesToProcess (length paths)), Created b k]
                     @ submit_events b 0 paths"
    by (simp add: w3_def submit_all_trace)
  with es w show ?thesis unfolding b_def by auto
qed

lemma process_batch_Returned:
  assumes "process_batch fuel sched glob_n self w paths = (Returned, w1)"
  shows "\<exists>k. glob_n = Some k \<and> 0 < k"
  using assms process_batch_raises [of glob_n fuel sched self w paths] by fastforce


lemma submitted_append: "submitted (es @ fs) = submitted es @ submitted fs"
  by (induction es rule: submitted.induct) simp_all

lemma submitted_submit_events: "submitted (submit_events b i ps) = ps"
  by (induction ps arbitrary: i) simp_all

lemma submitted_pool_events: "list_all (pool_event b n) es \<Longrightarrow> submitted es = []"
  by (induction es rule: submitted.induct) simp_all

lemma head_batch_pool_events: "list_all (pool_event b n) es \<Longrightarrow> head_batch es = []"
  by (induction es rule: head_batch.induct) simp_all

lemma pools_of_pool_events: "list_all (pool_event b n) es \<Longrightarrow> pools_of es = []"
  by (induction es rule: pools_of.induct) simp_all

lemma head_batch_submit_events:
  "list_all (pool_event b n) es \<Longrightarrow> head_batch (submit_events b i ps @ es) = ps"
  by (induction ps arbitrary: i) (simp_all add: head_batch_pool_events)

lemma pools_of_submit_events:
  "list_all (pool_event b n) es \<Longrightarrow> pools_of (submit_events b i ps @ es) = []"
  by (induction ps arbitrary: i) (simp_all add: pools_of_pool_events)

lemma head_batch_append_Created: "head_batch (es @ Created b k # fs) = head_batch es"
  by (induction es rule: head_batch.induct) simp_all

lemma pools_of_append_Created:
  "pools_of (es @ Created b k # fs) = pools_of es @ pools_of (Created b k # fs)"
  by (induction es rule: pools_of.induct) (simp_all add: head_batch_append_Created)

lemma head_batch_append_Printed: "head_batch (es @ [Printed m]) = head_batch es"
  by (induction es rule: head_batch.induct) simp_all

lemma pools_of_append_Printed: "pools_of (es @ [Printed m]) = pools_of es"
  by (induction es rule: pools_of.induct) (simp_all add: head_batch_append_Printed)

section \<open>Slices of a list\<close>











section \<open>What a run submits\<close>

text \<open>What one call of \<open>process_batch\<close> adds to the submitted paths and to the pools.\<close>

lemma process_batch_effect:
  assumes "process_batch fuel sched glob_n self w paths = (r, w1)"
  shows "(submitted (trace w1) = submitted (trace w) @ paths
          \<and> (\<exists>k. glob_n = Some k \<and> pools_of (trace w1) = pools_of (trace w) @ [(k, paths)]))
       \<or> (r \<noteq> Returned \<and> submitted (trace w1) = submitted (trace w)
          \<and> pools_of (trace w1) = pools_of (trace w))"
proof (cases "\<exists>k. glob_n = Some k \<and> 0 < k")
  case True
  then obtain k where k: "glob_n = Some k" "0 < k" by blast
  from process_batch_trace [OF assms k] obtain es where
    es: "trace w1 = trace w @ [Printed (PdfFilesToProcess (length paths)),
                               Created (executors (trace w)) k]
                      @ submit_events (executors (trace w)) 0 paths @ es"
        "list_all (pool_event (executors (trace w)) (length paths)) es" by blast
  have s: "submitted (trace w1) = submitted (trace w) @ paths"
    by (simp add: es submitted_append submitted_submit_events submitted_pool_events [OF es(2)])
  have "trace w1 = (trace w @ [Printed (PdfFilesToProcess (length paths))])
                     @ Created (executors (trace w)) k
                       # (submit_events (executors (trace w)) 0 paths @ es)"
    using es(1) by simp
  then have "pools_of (trace w1) = pools_of (trace w) @ [(k, paths)]"
    by (simp only: pools_of_append_Created pools_of_append_Printed pools_of.simps
        head_batch_submit_events [OF es(2)] pools_of_submit_events [OF es(2)])
  with s k show ?thesis by blast
next
  case False
  from process_batch_raises [OF False, of fuel sched self w paths] assms
  obtain e where "r = Raised e" "w1 = emit (Printed (PdfFilesToProcess (length paths))) w"
    by auto
  then show ?thesis
    by (simp add: submitted_append pools_of_append_Printed)
qed

lemma process_filenames_step_full:
  assumes "is_pdf f" and "int (length (buf @ [os_sep_join [d, f]])) = batch_size (config self)"
      and "process_batch fuel sched glob_n self w (buf @ [os_sep_join [d, f]]) = (r2, w2)"
  shows "process_filenames fuel sched glob_n self d (f # fs) buf w
           = (if r2 = Returned then process_filenames fuel sched glob_n self d fs [] w2
              else (r2, buf @ [os_sep_join [d, f]], w2))"
  using assms by (cases r2) (simp_all add: Let_def)

lemma process_filenames_step_short:
  assumes "is_pdf f" and "int (length (buf @ [os_sep_join [d, f]])) \<noteq> batch_size (config self)"
  shows "process_filenames fuel sched glob_n self d (f # fs) buf w
           = process_filenames fuel sched glob_n self d fs (buf @ [os_sep_join [d, f]]) w"
  using assms by (simp add: Let_def)

lemma process_filenames_step_skip:
  assumes "\<not> is_pdf f"
  shows "process_filenames fuel sched glob_n self d (f # fs) buf w
           = process_filenames fuel sched glob_n self d fs buf w"
  using assms by simp


lemma process_filenames_submitted:
  "process_filenames fuel sched glob_n self d fs buf w = (r, buf1, w1) \<Longrightarrow>
   \<exists>rest. submitted (trace w1) @ rest
            = submitted (trace w) @ buf @ map (\<lambda>f. os_sep_join [d, f]) (filter is_pdf fs)
        \<and> (r = Returned \<longrightarrow> rest = buf1)"
proof (induction fs arbitrary: buf w)
  case Nil
  then show ?case by simp
next
  case (Cons f fs)
  show ?case
  proof (cases "is_pdf f")
    case False
    from Cons.prems have "process_filenames fuel sched glob_n self d fs buf w = (r, buf1, w1)"
      by (simp only: process_filenames_step_skip [OF False])
    from Cons.IH [OF this] False show ?thesis by simp
  next
    case True
    define paths1 where "paths1 = buf @ [os_sep_join [d, f]]"
    have pdfs: "buf @ map (\<lambda>f. os_sep_join [d, f]) (filter is_pdf (f # fs))
                  = paths1 @ map (\<lambda>f. os_sep_join [d, f]) (filter is_pdf fs)"
      using True by (simp add: paths1_def)
    show ?thesis
    proof (cases "int (length paths1) = batch_size (config self)")
      case False
      from Cons.prems
      have "process_filenames fuel sched glob_n self d fs paths1 w = (r, buf1, w1)"
        using process_filenames_step_short [OF True False [unfolded paths1_def]]
        by (simp add: paths1_def)
      from Cons.IH [OF this] show ?thesis unfolding pdfs .
    next
      case full: True
      obtain r2 w2 where pb: "process_batch fuel sched glob_n self w paths1 = (r2, w2)"
        by (cases "process_batch fuel sched glob_n self w paths1")
      note step = process_filenames_step_full
                    [OF True full [unfolded paths1_def] pb [unfolded paths1_def],
                     folded paths1_def, of fs]
      from process_batch_effect [OF pb]
      consider (sub) "submitted (trace w2) = submitted (trace w) @ paths1"
        | (non) "r2 \<noteq> Returned" "submitted (trace w2) = submitted (trace w)"
        by blast
      then show ?thesis
      proof cases
        case sub
        show ?thesis
        proof (cases "r2 = Returned")
          case True
          with Cons.prems step
          have "process_filenames fuel sched glob_n self d fs [] w2 = (r, buf1, w1)" by simp
          from Cons.IH [OF this] sub show ?thesis unfolding pdfs by simp
        next
          case False
          with Cons.prems step have "r = r2" "w1 = w2" by simp_all
          with False sub show ?thesis unfolding pdfs by simp
        qed
      next
        case non
        with Cons.prems step have "r = r2" "w1 = w2" by simp_all
        with non show ?thesis unfolding pdfs by simp
      qed
    qed
  qed
qed

lemma process_walk_step:
  assumes "process_filenames fuel sched glob_n self d fs buf w = (r2, buf2, w2)"
  shows "process_walk fuel sched glob_n self ((d, ds, fs) # triples) buf w
           = (if r2 = Returned then process_walk fuel sched glob_n self triples buf2 w2
              else (r2, buf2, w2))"
  using assms by (cases r2) simp_all

lemma pdf_paths_Cons:
  "pdf_paths ((d, ds, fs) # triples)
     = map (\<lambda>f. os_sep_join [d, f]) (filter is_pdf fs) @ pdf_paths triples"
  by (simp add: pdf_paths_def)

lemma process_walk_submitted:
  "process_walk fuel sched glob_n self triples buf w = (r, buf1, w1) \<Longrightarrow>
   \<exists>rest. submitted (trace w1) @ rest = submitted (trace w) @ buf @ pdf_paths triples
        \<and> (r = Returned \<longrightarrow> rest = buf1)"
proof (induction triples arbitrary: buf w)
  case Nil
  then show ?case by (simp add: pdf_paths_def)
next
  case (Cons x triples)
  obtain d ds fs where x: "x = (d, ds, fs)" by (cases x)
  obtain r2 buf2 w2 where pf:
    "process_filenames fuel sched glob_n self d fs buf w = (r2, buf2, w2)"
    by (cases "process_filenames fuel sched glob_n self d fs buf w")
  note step = process_walk_step [OF pf, of ds triples]
  from process_filenames_submitted [OF pf] obtain rest where
    rest: "submitted (trace w2) @ rest
             = submitted (trace w) @ buf @ map (\<lambda>f. os_sep_join [d, f]) (filter is_pdf fs)"
          "r2 = Returned \<longrightarrow> rest = buf2" by blast
  show ?case
  proof (cases "r2 = Returned")
    case True
    with Cons.prems step x
    have "process_walk fuel sched glob_n self triples buf2 w2 = (r, buf1, w1)" by simp
    from Cons.IH [OF this] obtain rest2 where
      r2: "submitted (trace w1) @ rest2 = submitted (trace w2) @ buf2 @ pdf_paths triples"
          "r = Returned \<longrightarrow> rest2 = buf1" by blast
    have "submitted (trace w1) @ rest2
            = (submitted (trace w2) @ rest) @ pdf_paths triples"
      using r2(1) rest(2) True by simp
    then have "submitted (trace w1) @ rest2 = submitted (trace w) @ buf @ pdf_paths (x # triples)"
      unfolding rest(1) x pdf_paths_Cons by simp
    with r2(2) show ?thesis by blast
  next
    case False
    with Cons.prems step x have e: "r = r2" "w1 = w2" by simp_all
    have "submitted (trace w1) @ (rest @ pdf_paths triples)
            = submitted (trace w) @ buf @ pdf_paths (x # triples)"
      using rest(1) e unfolding x pdf_paths_Cons by (metis append_assoc)
    with False e show ?thesis by blast
  qed
qed


lemma process_unfold:
  assumes "process_walk fuel sched glob_n
             (self\<lparr>service := Some service_name, output_directory := output_dir\<rparr>)
             (os_walk w root) [] w = (r2, buf2, w2)"
  shows "process fuel sched glob_n self w service_name (Some root) output_dir
           = (if r2 = Returned \<and> buf2 \<noteq> []
              then (fst (process_batch fuel sched glob_n
                           (self\<lparr>service := Some service_name, output_directory := output_dir\<rparr>)
                           w2 buf2),
                    self\<lparr>service := Some service_name, output_directory := output_dir\<rparr>,
                    snd (process_batch fuel sched glob_n
                           (self\<lparr>service := Some service_name, output_directory := output_dir\<rparr>)
                           w2 buf2))
              else (r2, self\<lparr>service := Some service_name, output_directory := output_dir\<rparr>, w2))"
  using assms by (cases r2) (simp_all add: process_def Let_def split: prod.splits)

lemma process_submitted:
  assumes "process fuel sched glob_n self w service_name (Some root) output_dir = (r, self1, w1)"
  shows "\<exists>rest. submitted (trace w1) @ rest = submitted (trace w) @ pdf_paths (os_walk w root)
              \<and> (r = Returned \<longrightarrow> rest = [])"
proof -
  define c where "c = self\<lparr>service := Some service_name, output_directory := output_dir\<rparr>"
  obtain r2 buf2 w2 where pw:
    "process_walk fuel sched glob_n c (os_walk w root) [] w = (r2, buf2, w2)"
    by (cases "process_walk fuel sched glob_n c (os_walk w root) [] w")
  note step = process_unfold [OF pw [unfolded c_def], folded c_def]
  from process_walk_submitted [OF pw] obtain rest where
    rest: "submitted (trace w2) @ rest = submitted (trace w) @ pdf_paths (os_walk w root)"
          "r2 = Returned \<longrightarrow> rest = buf2" by auto
  show ?thesis
  proof (cases "r2 = Returned \<and> buf2 \<noteq> []")
    case False
    with assms step have e: "r = r2" "w1 = w2" by auto
    show ?thesis using rest e False by auto
  next
    case True
    obtain r3 w3 where pb: "process_batch fuel sched glob_n c w2 buf2 = (r3, w3)"
      by (cases "process_batch fuel sched glob_n c w2 buf2")
    with assms step True have e: "r = r3" "w1 = w3" by simp_all
    from process_batch_effect [OF pb]
    consider (sub) "submitted (trace w3) = submitted (trace w2) @ buf2"
      | (non) "r3 \<noteq> Returned" "submitted (trace w3) = submitted (trace w2)"
      by blast
    then show ?thesis
    proof cases
      case sub
      then have "submitted (trace w1) @ [] = submitted (trace w) @ pdf_paths (os_walk w root)"
        using rest True e by simp
      then show ?thesis by blast
    next
      case non
      then show ?thesis using rest e by auto
    qed
  qed
qed


lemma example_run:
  "fst example_result = Returned
   \<and> pools_of (trace (snd (snd example_result)))
       = [(2, [''in/a.pdf'', ''in/b.PDF'']), (2, [''in/sub/d.pdf''])]
   \<and> submitted (trace (snd (snd example_result)))
       = [''in/a.pdf'', ''in/b.PDF'', ''in/sub/d.pdf'']"
  by code_simp

lemma example_walk:
  "os_walk example_world ''in''
     = [(''in'', [''sub''], [''a.pdf'', ''b.PDF'', ''c.Pdf'']), (''in/sub'', [], [''d.pdf''])]"
  by code_simp

lemma example_process:
  "process 10 (\<lambda>b t. 0) (Some 2) example_client example_world
     ''processHeaderDocument'' (Some ''in'') None
   = (Returned, fst (snd example_result), snd (snd example_result))"
  using example_run by (simp add: example_result_def prod_eq_iff)

text \<open>
  C8, as stated, fails: the regular file \<open>c.Pdf\<close> of the example tree ends in \<open>.pdf\<close>
  when case is ignored, it is listed by \<open>os.walk\<close>, and the run, which returns, does
  not submit it.
\<close>

theorem mixed_case_pdf_not_taken:
  "endswith_nocase ''c.Pdf'' ''.pdf''
   \<and> os_walk example_world ''in''
       = [(''in'', [''sub''], [''a.pdf'', ''b.PDF'', ''c.Pdf'']), (''in/sub'', [], [''d.pdf''])]
   \<and> fst example_result = Returned
   \<and> ''in/c.Pdf'' \<notin> set (submitted (trace (snd (snd example_result))))"
proof -
  have "endswith_nocase ''c.Pdf'' ''.pdf''" by code_simp
  then show ?thesis using example_run example_walk by simp
qed

text \<open>
  C8, amended. The paths that a run submits are, in the order of the walk, the files
  listed under the root whose names end in \<open>.pdf\<close> or in \<open>.PDF\<close>, spelled exactly so:
  all of them when \<open>process\<close> returns, and the first ones otherwise.
\<close>

theorem discovery_takes_pdf_and_PDF:
  assumes "process fuel sched glob_n self w service_name (Some root) output_dir = (r, self1, w1)"
  shows "\<exists>rest. submitted (trace w1) @ rest
                 = submitted (trace w)
                   @ concat (map (\<lambda>(directory_path, directory_names, filenames).
                                    map (\<lambda>filename. os_sep_join [directory_path, filename])
                                        (filter (\<lambda>filename. endswith filename ''.pdf''
                                                            \<or> endswith filename ''.PDF'')
                                                filenames))
                                 (os_walk w root))
              \<and> (r = Returned \<longrightarrow> rest = [])"
proof -
  have "is_pdf = (\<lambda>filename. endswith filename ''.pdf'' \<or> endswith filename ''.PDF'')"
    by (rule ext) (simp add: is_pdf_def)
  then show ?thesis
    using process_submitted [OF assms] unfolding pdf_paths_def by simp
qed

theorem discovery_takes_pdf_and_PDF_witness:
  "process 10 (\<lambda>b t. 0) (Some 2) example_client example_world
     ''processHeaderDocument'' (Some ''in'') None
   = (Returned, fst (snd example_result), snd (snd example_result))
   \<and> submitted (trace (snd (snd example_result)))
       = concat (map (\<lambda>(directory_path, directory_names, filenames).
                        map (\<lambda>filename. os_sep_join [directory_path, filename])
                            (filter (\<lambda>filename. endswith filename ''.pdf''
                                                \<or> endswith filename ''.PDF'')
                                    filenames))
                     (os_walk example_world ''in''))"
proof -
  have "submitted (trace example_world) = []"
    by (simp add: example_world_def)
  then show ?thesis
    using discovery_takes_pdf_and_PDF [OF example_process] example_process by auto
qed

section \<open>The batches of a run\<close>





section \<open>A run comes to its end\<close>

lemma emit_limit [simp]: "recursion_limit (emit e w) = recursion_limit w"
  by (simp add: emit_def)

lemma write_file_limit [simp]: "recursion_limit (write_file p text w) = recursion_limit w"
  by (simp add: write_file_def)


lemma submit_all_limit [simp]: "recursion_limit (submit_all b i ps w) = recursion_limit w"
  by (induction ps arbitrary: i w) simp_all




lemma run_pool_idle:
  assumes "runnable k tasks = []"
  shows "run_pool fuel sched t b k tasks w = (Returned, tasks, w)"
  using assms by (cases fuel) simp_all







text \<open>
  A pool with a single unit does what a call of \<open>process_pdf\<close> does on a stack that
  admits \<open>recursion_limit\<close> activations, and marks the unit done.
\<close>

lemma runnable_single:
  assumes "0 < k" and "\<not> is_Finished T"
  shows "runnable k [T] = [0]"
  using assms by (cases T) (auto simp: runnable_def running_def pending_def)

lemma run_pool_single:
  assumes "0 < k"
  shows "process_pdf depth self w p = (r, self1, w1) \<Longrightarrow>
         (T = Pending self p \<and> depth = recursion_limit w) \<or> T = Running self p depth \<Longrightarrow>
         depth < fuel \<Longrightarrow>
         run_pool fuel sched t b k [T] w = (Returned, [Finished r], emit (Completed b 0 r) w1)"
proof (induction depth arbitrary: fuel self w t T)
  case 0
  from 0(3) obtain f where fuel: "fuel = Suc f" by (cases fuel) simp_all
  have rn: "runnable k [T] = [0]"
    using runnable_single [OF assms] 0(2) by auto
  have st: "step_task b 0 T w = advance b 0 self p 0 w"
    using 0(2) by auto
  have e: "r = Raised RecursionError" "w1 = w" using 0(1) by simp_all
  have a: "advance b 0 self p 0 w = (Finished r, emit (Completed b 0 r) w1)"
    using e by (simp add: advance_def)
  have "runnable k [Finished r] = []"
    by (simp add: runnable_def running_def pending_def)
  from run_pool_idle [OF this]
  have "run_pool f sched (Suc t) b k [Finished r] (emit (Completed b 0 r) w1)
          = (Returned, [Finished r], emit (Completed b 0 r) w1)" .
  then show ?case using rn st a fuel by (simp add: Let_def)
next
  case (Suc d)
  from Suc.prems(3) obtain f where fuel: "fuel = Suc f" "d < f" by (cases fuel) simp_all
  have rn: "runnable k [T] = [0]"
    using runnable_single [OF assms] Suc.prems(2) by auto
  have st: "step_task b 0 T w = advance b 0 self p (Suc d) w"
    using Suc.prems(2) by auto
  obtain x self2 w2 where fr: "process_pdf_frame self w p = (x, self2, w2)"
    by (cases "process_pdf_frame self w p")
  show ?case
  proof (cases x)
    case (Exit r')
    with Suc.prems(1) fr have e: "r = r'" "w1 = w2" by simp_all
    have a: "advance b 0 self p (Suc d) w = (Finished r, emit (Completed b 0 r) w1)"
      using fr Exit e by (simp add: advance_def)
    have "runnable k [Finished r] = []"
      by (simp add: runnable_def running_def pending_def)
    from run_pool_idle [OF this]
    have "run_pool f sched (Suc t) b k [Finished r] (emit (Completed b 0 r) w1)
            = (Returned, [Finished r], emit (Completed b 0 r) w1)" .
    then show ?thesis using rn st a fuel by (simp add: Let_def)
  next
    case Recurse
    with Suc.prems(1) fr have p: "process_pdf d self2 w2 p = (r, self1, w1)" by simp
    have a: "advance b 0 self p (Suc d) w = (Running self2 p d, w2)"
      using fr Recurse by (simp add: advance_def)
    from Suc.IH [OF p _ fuel(2), of "Running self2 p d" "Suc t"]
    have "run_pool f sched (Suc t) b k [Running self2 p d] w2
            = (Returned, [Finished r], emit (Completed b 0 r) w1)" by simp
    then show ?thesis using rn st a fuel by (simp add: Let_def)
  qed
qed




section \<open>Batches follow one another\<close>

lemma submitted_in_append: "submitted_in (es @ fs) b = submitted_in es b @ submitted_in fs b"
  by (induction es b rule: submitted_in.induct) simp_all

lemma completed_in_append:
  "completed_in (es @ fs) b j = (completed_in es b j \<or> completed_in fs b j)"
  by (induction es b j rule: completed_in.induct) auto

lemma submitted_in_mem: "Submitted b j p \<in> set es \<Longrightarrow> j \<in> set (submitted_in es b)"
  by (induction es b rule: submitted_in.induct) auto

lemma submitted_in_pool_events: "list_all (pool_event b n) es \<Longrightarrow> submitted_in es b' = []"
  by (induction es b' rule: submitted_in.induct) simp_all

lemma submitted_in_io_events: "list_all io_event es \<Longrightarrow> submitted_in es b = []"
  by (induction es b rule: submitted_in.induct) simp_all

lemma executors_pool_events: "list_all (pool_event b n) es \<Longrightarrow> executors es = 0"
  by (induction es rule: executors.induct) simp_all

lemma executors_submit_events: "executors (submit_events b i ps) = 0"
  by (induction ps arbitrary: i) simp_all

lemma submitted_in_submit_events:
  "j \<in> set (submitted_in (submit_events b i ps) b') \<Longrightarrow> b' = b \<and> j < i + length ps"
proof (induction ps arbitrary: i)
  case Nil
  then show ?case by simp
next
  case (Cons p ps)
  show ?case
  proof (cases "b' = b \<and> j = i")
    case True
    then show ?thesis by simp
  next
    case False
    with Cons.prems have "j \<in> set (submitted_in (submit_events b (Suc i) ps) b')"
      by (simp split: if_splits)
    from Cons.IH [OF this] show ?thesis by simp
  qed
qed

lemma set_submit_events: "e \<in> set (submit_events b i ps) \<Longrightarrow> \<exists>j p. e = Submitted b j p"
  by (induction ps arbitrary: i) auto

lemma pool_event_not_Submitted: "list_all (pool_event b n) es \<Longrightarrow> Submitted b' j p \<notin> set es"
  by (induction es) auto

lemma io_event_not_Submitted: "list_all io_event es \<Longrightarrow> Submitted b j p \<notin> set es"
  by (induction es) auto

lemma earlier_done_iff:
  "earlier_done tr pre e \<longleftrightarrow>
     (\<forall>b i p. e = Submitted (Suc b) i p \<longrightarrow>
        (\<forall>j \<in> set (submitted_in tr b). completed_in pre b j))"
  by (cases "(tr, pre, e)" rule: earlier_done.cases) simp_all

lemma batches_in_order_iff:
  "batches_in_order tr \<longleftrightarrow>
     (\<forall>y b i p. y < length tr \<longrightarrow> tr ! y = Submitted (Suc b) i p \<longrightarrow>
        (\<forall>j \<in> set (submitted_in tr b). completed_in (take y tr) b j))"
  unfolding batches_in_order_def earlier_done_iff by blast

lemma batches_in_order_append:
  assumes "batches_in_order tr"
      and "\<And>b i p. Submitted (Suc b) i p \<in> set tr \<Longrightarrow> submitted_in seg b = []"
      and "\<And>b i p j. Submitted (Suc b) i p \<in> set seg \<Longrightarrow> j \<in> set (submitted_in (tr @ seg) b)
             \<Longrightarrow> completed_in tr b j"
  shows "batches_in_order (tr @ seg)"
  unfolding batches_in_order_iff
proof (intro allI impI ballI)
  fix y b i p j
  assume y: "y < length (tr @ seg)" and e: "(tr @ seg) ! y = Submitted (Suc b) i p"
     and j: "j \<in> set (submitted_in (tr @ seg) b)"
  show "completed_in (take y (tr @ seg)) b j"
  proof (cases "y < length tr")
    case True
    then have t: "tr ! y = Submitted (Suc b) i p" using e by (simp add: nth_append)
    then have "Submitted (Suc b) i p \<in> set tr" using True by (metis nth_mem)
    then have "submitted_in seg b = []" by (rule assms(2))
    then have "j \<in> set (submitted_in tr b)" using j by (simp add: submitted_in_append)
    then have "completed_in (take y tr) b j"
      using assms(1) True t unfolding batches_in_order_iff by blast
    then show ?thesis using True by simp
  next
    case False
    then have "seg ! (y - length tr) = Submitted (Suc b) i p" using e by (simp add: nth_append)
    moreover have "y - length tr < length seg" using y False by simp
    ultimately have "Submitted (Suc b) i p \<in> set seg" by (metis nth_mem)
    from assms(3) [OF this j] have "completed_in tr b j" .
    then show ?thesis using False by (simp add: completed_in_append)
  qed
qed

lemma io_trace_settled:
  assumes "list_all io_event tr"
  shows "settled tr" and "batches_in_order tr"
proof -
  show "settled tr"
    unfolding settled_def using submitted_in_io_events [OF assms] by simp
  show "batches_in_order tr"
    unfolding batches_in_order_iff
    using io_event_not_Submitted [OF assms] by (metis nth_mem)
qed

text \<open>A pool that returns has brought every unit to its end.\<close>

lemma no_runnable_all_finished:
  assumes "runnable k tasks = []" and "0 < k" and "i < length tasks"
  shows "is_Finished (tasks ! i)"
proof -
  have r: "running tasks = []" using assms(1) by (simp add: runnable_def)
  then have "take 1 (pending tasks) = []" using assms(1,2) by (simp add: runnable_def)
  then have p: "pending tasks = []" by (cases "pending tasks") simp_all
  have "\<not> is_Running (tasks ! i)"
    using r assms(3) by (auto simp: running_def filter_empty_conv)
  moreover have "\<not> is_Pending (tasks ! i)"
    using p assms(3) by (auto simp: pending_def filter_empty_conv)
  ultimately show ?thesis by (cases "tasks ! i") simp_all
qed

lemma advance_progress:
  assumes "advance b i self p depth w = (t1, w1)"
  shows "\<exists>es. trace w1 = trace w @ es \<and> (is_Finished t1 \<longrightarrow> completed_in es b i)"
proof (cases depth)
  case 0
  with assms have "w1 = emit (Completed b i (Raised RecursionError)) w"
    by (simp add: advance_def)
  then have "trace w1 = trace w @ [Completed b i (Raised RecursionError)]" by simp
  moreover have "completed_in [Completed b i (Raised RecursionError)] b i" by simp
  ultimately show ?thesis by blast
next
  case (Suc d)
  obtain x self1 w0 where f: "process_pdf_frame self w p = (x, self1, w0)"
    by (cases "process_pdf_frame self w p")
  from frame_trace [of self w p] f obtain es where
    es: "trace w0 = trace w @ es" by auto
  show ?thesis
  proof (cases x)
    case (Exit r)
    with assms f Suc have "w1 = emit (Completed b i r) w0" by (simp add: advance_def)
    then have "trace w1 = trace w @ (es @ [Completed b i r])" using es by simp
    moreover have "completed_in (es @ [Completed b i r]) b i"
      by (simp add: completed_in_append)
    ultimately show ?thesis by blast
  next
    case Recurse
    with assms f Suc have "w1 = w0" "t1 = Running self1 p d" by (simp_all add: advance_def)
    then show ?thesis using es by simp
  qed
qed

lemma step_task_progress:
  assumes "step_task b i t w = (t1, w1)" and "\<not> is_Finished t"
  shows "\<exists>es. trace w1 = trace w @ es \<and> (is_Finished t1 \<longrightarrow> completed_in es b i)"
  using assms advance_progress by (cases t) simp_all

lemma run_pool_completes:
  "run_pool fuel sched t b k tasks w = (Returned, tasks1, w1) \<Longrightarrow> 0 < k \<Longrightarrow>
     \<exists>es. trace w1 = trace w @ es
        \<and> (\<forall>j < length tasks. \<not> is_Finished (tasks ! j) \<longrightarrow> completed_in es b j)"
proof (induction fuel arbitrary: t tasks w)
  case 0
  then have "runnable k tasks = []" "w1 = w" by (simp_all split: if_splits)
  with no_runnable_all_finished [OF this(1) 0(2)] show ?case by simp
next
  case (Suc fuel)
  show ?case
  proof (cases "runnable k tasks = []")
    case True
    with Suc.prems have "w1 = w" by simp
    with no_runnable_all_finished [OF True Suc.prems(2)] show ?thesis by simp
  next
    case False
    define i where "i = runnable k tasks ! (sched t mod length (runnable k tasks))"
    have il: "i < length tasks" unfolding i_def using False by (rule runnable_pick)
    obtain t2 w2 where st: "step_task b i (tasks ! i) w = (t2, w2)"
      by (cases "step_task b i (tasks ! i) w")
    from Suc.prems(1) False st
    have rec: "run_pool fuel sched (Suc t) b k (tasks[i := t2]) w2 = (Returned, tasks1, w1)"
      by (simp add: Let_def i_def)
    from Suc.IH [OF rec Suc.prems(2)] obtain fs where
      fs: "trace w1 = trace w2 @ fs"
          "\<forall>j < length (tasks[i := t2]). \<not> is_Finished (tasks[i := t2] ! j)
              \<longrightarrow> completed_in fs b j" by blast
    have "\<exists>es. trace w2 = trace w @ es
            \<and> (\<not> is_Finished (tasks ! i) \<longrightarrow> is_Finished t2 \<longrightarrow> completed_in es b i)"
    proof (cases "is_Finished (tasks ! i)")
      case True
      then obtain r where "tasks ! i = Finished r" by (cases "tasks ! i") simp_all
      with st have "w2 = w" by simp
      with True show ?thesis by simp
    next
      case nf: False
      from step_task_progress [OF st nf] show ?thesis by blast
    qed
    then obtain es where
      es: "trace w2 = trace w @ es"
          "\<not> is_Finished (tasks ! i) \<longrightarrow> is_Finished t2 \<longrightarrow> completed_in es b i" by blast
    have "trace w1 = trace w @ (es @ fs)" using es(1) fs(1) by simp
    moreover have "\<forall>j < length tasks. \<not> is_Finished (tasks ! j) \<longrightarrow> completed_in (es @ fs) b j"
    proof (intro allI impI)
      fix j assume j: "j < length tasks" "\<not> is_Finished (tasks ! j)"
      show "completed_in (es @ fs) b j"
      proof (cases "j = i")
        case True
        show ?thesis
        proof (cases "is_Finished t2")
          case True
          with es(2) j \<open>j = i\<close> show ?thesis by (simp add: completed_in_append)
        next
          case False
          with fs(2) j \<open>j = i\<close> have "completed_in fs b j" by simp
          then show ?thesis by (simp add: completed_in_append)
        qed
      next
        case False
        with fs(2) j have "completed_in fs b j" by simp
        then show ?thesis by (simp add: completed_in_append)
      qed
    qed
    ultimately show ?thesis by blast
  qed
qed

lemma process_batch_completes:
  assumes "process_batch fuel sched glob_n self w paths = (r, w1)"
      and "glob_n = Some k" and "0 < k"
  shows "\<exists>es. trace w1 = trace w @ [Printed (PdfFilesToProcess (length paths)),
                                     Created (executors (trace w)) k]
                          @ submit_events (executors (trace w)) 0 paths @ es
              \<and> list_all (pool_event (executors (trace w)) (length paths)) es
              \<and> (r = Returned \<longrightarrow>
                   (\<forall>j < length paths. completed_in es (executors (trace w)) j))"
proof -
  define b where "b = executors (trace w)"
  define w3 where "w3 = submit_all b 0 paths
                          (emit (Created b k) (emit (Printed (PdfFilesToProcess (length paths))) w))"
  have eb: "executors (trace (emit (Printed (PdfFilesToProcess (length paths))) w)) = b"
    by (simp add: b_def executors_append)
  obtain r2 tasks2 w4 where rp:
    "run_pool fuel (sched b) 0 b k (map (Pending self) paths) w3 = (r2, tasks2, w4)"
    by (cases "run_pool fuel (sched b) 0 b k (map (Pending self) paths) w3")
  have "process_batch fuel sched glob_n self w paths = (r2, w4)"
    using assms(2,3) rp eb unfolding process_batch_def w3_def by (simp add: Let_def)
  with assms(1) have w: "w1 = w4" "r = r2" by simp_all
  from run_pool_trace [OF rp] obtain es where
    es: "trace w4 = trace w3 @ es" "list_all (pool_event b (length paths)) es" by auto
  have t3: "trace w3 = trace w @ [Printed (PdfFilesToProcess (length paths)), Created b k]
                     @ submit_events b 0 paths"
    by (simp add: w3_def submit_all_trace)
  have "r = Returned \<longrightarrow> (\<forall>j < length paths. completed_in es b j)"
  proof
    assume "r = Returned"
    with rp w have "run_pool fuel (sched b) 0 b k (map (Pending self) paths) w3
                      = (Returned, tasks2, w4)" by simp
    from run_pool_completes [OF this assms(3)] obtain fs where
      fs: "trace w4 = trace w3 @ fs"
          "\<forall>j < length (map (Pending self) paths).
              \<not> is_Finished (map (Pending self) paths ! j) \<longrightarrow> completed_in fs b j" by blast
    from fs(1) es(1) have "fs = es" by simp
    with fs(2) show "\<forall>j < length paths. completed_in es b j" by simp
  qed
  with es w t3 show ?thesis unfolding b_def by auto
qed

lemma process_batch_order:
  assumes "process_batch fuel sched glob_n self w paths = (r, w1)"
      and "settled (trace w)" and "batches_in_order (trace w)"
  shows "batches_in_order (trace w1) \<and> (r = Returned \<longrightarrow> settled (trace w1))"
proof (cases "\<exists>k. glob_n = Some k \<and> 0 < k")
  case False
  from process_batch_raises [OF False, of fuel sched self w paths] assms(1)
  obtain e where e: "r = Raised e" "w1 = emit (Printed (PdfFilesToProcess (length paths))) w"
    by auto
  have "batches_in_order (trace w @ [Printed (PdfFilesToProcess (length paths))])"
    by (rule batches_in_order_append [OF assms(3)]) simp_all
  with e show ?thesis by simp
next
  case True
  then obtain k where k: "glob_n = Some k" "0 < k" by blast
  define b where "b = executors (trace w)"
  define tr where "tr = trace w"
  from process_batch_completes [OF assms(1) k] obtain es where
    es: "trace w1 = tr @ [Printed (PdfFilesToProcess (length paths)), Created b k]
                      @ submit_events b 0 paths @ es"
        "list_all (pool_event b (length paths)) es"
        "r = Returned \<longrightarrow> (\<forall>j < length paths. completed_in es b j)"
    unfolding b_def tr_def by blast
  define seg where "seg = [Printed (PdfFilesToProcess (length paths)), Created b k]
                            @ submit_events b 0 paths @ es"
  have tw: "trace w1 = tr @ seg" using es(1) by (simp add: seg_def)
  have sub_seg: "\<And>b' j. j \<in> set (submitted_in seg b') \<Longrightarrow> b' = b \<and> j < length paths"
  proof -
    fix b' j assume "j \<in> set (submitted_in seg b')"
    then have "j \<in> set (submitted_in (submit_events b 0 paths) b')"
      by (simp add: seg_def submitted_in_append submitted_in_pool_events [OF es(2)])
    from submitted_in_submit_events [OF this] show "b' = b \<and> j < length paths" by simp
  qed
  have in_seg: "\<And>b' i p. Submitted b' i p \<in> set seg \<Longrightarrow> b' = b"
  proof -
    fix b' i p assume "Submitted b' i p \<in> set seg"
    then have "Submitted b' i p \<in> set (submit_events b 0 paths)"
      using pool_event_not_Submitted [OF es(2)] by (auto simp: seg_def)
    from set_submit_events [OF this] show "b' = b" by auto
  qed
  have st: "\<And>b' j. j \<in> set (submitted_in tr b') \<Longrightarrow> b' < b \<and> completed_in tr b' j"
    using assms(2) unfolding settled_def tr_def b_def by blast
  have bio: "batches_in_order (tr @ seg)"
  proof (rule batches_in_order_append)
    show "batches_in_order tr" using assms(3) by (simp add: tr_def)
  next
    fix b' i p assume "Submitted (Suc b') i p \<in> set tr"
    then have "i \<in> set (submitted_in tr (Suc b'))" by (rule submitted_in_mem)
    from st [OF this] have "b' \<noteq> b" by simp
    then show "submitted_in seg b' = []"
      using sub_seg [of _ b'] by (cases "submitted_in seg b'") auto
  next
    fix b' i p j
    assume s: "Submitted (Suc b') i p \<in> set seg" and j: "j \<in> set (submitted_in (tr @ seg) b')"
    from in_seg [OF s] have "b' \<noteq> b" by simp
    then have "j \<notin> set (submitted_in seg b')" using sub_seg [of j b'] by blast
    with j have "j \<in> set (submitted_in tr b')" by (simp add: submitted_in_append)
    from st [OF this] show "completed_in tr b' j" by simp
  qed
  have ex: "executors (tr @ seg) = Suc b"
    by (simp add: seg_def executors_append executors_submit_events
        executors_pool_events [OF es(2)] b_def tr_def)
  have "r = Returned \<longrightarrow> settled (tr @ seg)"
  proof
    assume R: "r = Returned"
    show "settled (tr @ seg)"
      unfolding settled_def ex
    proof (intro allI ballI)
      fix b' j assume "j \<in> set (submitted_in (tr @ seg) b')"
      then consider "j \<in> set (submitted_in tr b')" | "j \<in> set (submitted_in seg b')"
        by (auto simp: submitted_in_append)
      then show "b' < Suc b \<and> completed_in (tr @ seg) b' j"
      proof cases
        case 1
        from st [OF this] show ?thesis by (simp add: completed_in_append)
      next
        case 2
        from sub_seg [OF this] have bj: "b' = b" "j < length paths" by simp_all
        with es(3) R have "completed_in es b j" by simp
        then have "completed_in seg b j" by (simp add: seg_def completed_in_append)
        with bj show ?thesis by (simp add: completed_in_append)
      qed
    qed
  qed
  with bio tw show ?thesis by simp
qed

lemma process_filenames_order:
  "process_filenames fuel sched glob_n self d fs buf w = (r, buf1, w1) \<Longrightarrow>
   settled (trace w) \<Longrightarrow> batches_in_order (trace w) \<Longrightarrow>
   batches_in_order (trace w1) \<and> (r = Returned \<longrightarrow> settled (trace w1))"
proof (induction fs arbitrary: buf w)
  case Nil
  then show ?case by simp
next
  case (Cons f fs)
  show ?case
  proof (cases "is_pdf f")
    case False
    from Cons.prems(1) have "process_filenames fuel sched glob_n self d fs buf w = (r, buf1, w1)"
      by (simp only: process_filenames_step_skip [OF False])
    from Cons.IH [OF this Cons.prems(2,3)] show ?thesis .
  next
    case True
    define paths1 where "paths1 = buf @ [os_sep_join [d, f]]"
    show ?thesis
    proof (cases "int (length paths1) = batch_size (config self)")
      case False
      from Cons.prems(1)
      have "process_filenames fuel sched glob_n self d fs paths1 w = (r, buf1, w1)"
        using process_filenames_step_short [OF True False [unfolded paths1_def]]
        by (simp add: paths1_def)
      from Cons.IH [OF this Cons.prems(2,3)] show ?thesis .
    next
      case full: True
      obtain r2 w2 where pb: "process_batch fuel sched glob_n self w paths1 = (r2, w2)"
        by (cases "process_batch fuel sched glob_n self w paths1")
      note step = process_filenames_step_full
                    [OF True full [unfolded paths1_def] pb [unfolded paths1_def],
                     folded paths1_def, of fs]
      from process_batch_order [OF pb Cons.prems(2,3)]
      have o: "batches_in_order (trace w2)" "r2 = Returned \<longrightarrow> settled (trace w2)"
        by simp_all
      show ?thesis
      proof (cases "r2 = Returned")
        case True
        with Cons.prems(1) step
        have "process_filenames fuel sched glob_n self d fs [] w2 = (r, buf1, w1)" by simp
        from Cons.IH [OF this] o True show ?thesis by simp
      next
        case False
        with Cons.prems(1) step have "r = r2" "w1 = w2" by simp_all
        with False o show ?thesis by simp
      qed
    qed
  qed
qed

lemma process_walk_order:
  "process_walk fuel sched glob_n self triples buf w = (r, buf1, w1) \<Longrightarrow>
   settled (trace w) \<Longrightarrow> batches_in_order (trace w) \<Longrightarrow>
   batches_in_order (trace w1) \<and> (r = Returned \<longrightarrow> settled (trace w1))"
proof (induction triples arbitrary: buf w)
  case Nil
  then show ?case by simp
next
  case (Cons x triples)
  obtain d ds fs where x: "x = (d, ds, fs)" by (cases x)
  obtain r2 buf2 w2 where pf:
    "process_filenames fuel sched glob_n self d fs buf w = (r2, buf2, w2)"
    by (cases "process_filenames fuel sched glob_n self d fs buf w")
  note step = process_walk_step [OF pf, of ds triples]
  from process_filenames_order [OF pf Cons.prems(2,3)]
  have o: "batches_in_order (trace w2)" "r2 = Returned \<longrightarrow> settled (trace w2)"
    by simp_all
  show ?case
  proof (cases "r2 = Returned")
    case True
    with Cons.prems(1) step x
    have "process_walk fuel sched glob_n self triples buf2 w2 = (r, buf1, w1)" by simp
    from Cons.IH [OF this] o True show ?thesis by simp
  next
    case False
    with Cons.prems(1) step x have "r = r2" "w1 = w2" by simp_all
    with False o show ?thesis by simp
  qed
qed

lemma process_order:
  assumes "process fuel sched glob_n self w service_name input_directory output_dir
             = (r, self1, w1)"
      and "settled (trace w)" and "batches_in_order (trace w)"
  shows "batches_in_order (trace w1)"
proof (cases input_directory)
  case None
  with assms(1) have "w1 = w" by (simp add: process_def Let_def)
  with assms(3) show ?thesis by simp
next
  case (Some root)
  define c where "c = self\<lparr>service := Some service_name, output_directory := output_dir\<rparr>"
  obtain r2 buf2 w2 where pw:
    "process_walk fuel sched glob_n c (os_walk w root) [] w = (r2, buf2, w2)"
    by (cases "process_walk fuel sched glob_n c (os_walk w root) [] w")
  note step = process_unfold [OF pw [unfolded c_def], folded c_def]
  from process_walk_order [OF pw assms(2,3)]
  have o: "batches_in_order (trace w2)" "r2 = Returned \<longrightarrow> settled (trace w2)"
    by simp_all
  show ?thesis
  proof (cases "r2 = Returned \<and> buf2 \<noteq> []")
    case False
    with assms(1) step Some have "w1 = w2" by auto
    with o show ?thesis by simp
  next
    case True
    obtain r3 w3 where pb: "process_batch fuel sched glob_n c w2 buf2 = (r3, w3)"
      by (cases "process_batch fuel sched glob_n c w2 buf2")
    with assms(1) step True Some have e: "w1 = w3" by simp
    from process_batch_order [OF pb] o True e show ?thesis by simp
  qed
qed

text \<open>The order is a real constraint: a trace that submits to the second executor while
  a unit of the first is not done does not satisfy it.\<close>

lemma batches_in_order_rejects:
  "\<not> batches_in_order [Created 0 1, Submitted 0 0 ''a'', Created 1 1, Submitted 1 0 ''b'',
                        Completed 0 0 Returned, Completed 1 0 Returned]"
  by code_simp

text \<open>
  C2. In the trace of every run that starts without executor events, whatever the
  schedule of the workers and however the run ends, each unit of batch \<open>N\<close> is done
  before any unit of batch \<open>N + 1\<close> is submitted; and when \<open>process_batch\<close> returns,
  every unit of its batch is done (it has returned or raised) in the part of the trace
  that the call added.
\<close>

theorem batches_run_in_order:
  assumes "list_all io_event (trace w)"
      and "process fuel sched glob_n self w service_name input_directory output_dir
             = (r, self1, w1)"
      and "process_batch fuel' sched' glob_n' self' w' paths = (Returned, w2)"
  shows "batches_in_order (trace w1)
       \<and> (\<forall>j < length paths.
             completed_in (drop (length (trace w')) (trace w2)) (executors (trace w')) j)"
proof -
  have "batches_in_order (trace w1)"
    using process_order [OF assms(2) io_trace_settled [OF assms(1)]] .
  moreover have "\<forall>j < length paths.
             completed_in (drop (length (trace w')) (trace w2)) (executors (trace w')) j"
  proof -
    from process_batch_Returned [OF assms(3)] obtain k where
      k: "glob_n' = Some k" "0 < k" by blast
    from process_batch_completes [OF assms(3) k] obtain es where
      es: "trace w2 = trace w' @ [Printed (PdfFilesToProcess (length paths)),
                                  Created (executors (trace w')) k]
                        @ submit_events (executors (trace w')) 0 paths @ es"
          "\<forall>j < length paths. completed_in es (executors (trace w')) j" by blast
    show ?thesis
      using es(2) by (simp add: es(1) completed_in_append)
  qed
  ultimately show ?thesis by blast
qed


lemma example_batch:
  "fst (process_batch 10 (\<lambda>b t. 0) (Some 2) example_client example_world
          [''in/a.pdf'', ''in/b.PDF'']) = Returned"
  by code_simp

theorem batches_run_in_order_witness:
  "list_all io_event (trace example_world)
   \<and> process 10 (\<lambda>b t. 0) (Some 2) example_client example_world
       ''processHeaderDocument'' (Some ''in'') None
     = (Returned, fst (snd example_result), snd (snd example_result))
   \<and> process_batch 10 (\<lambda>b t. 0) (Some 2) example_client example_world
       [''in/a.pdf'', ''in/b.PDF'']
     = (Returned, snd (process_batch 10 (\<lambda>b t. 0) (Some 2) example_client example_world
                         [''in/a.pdf'', ''in/b.PDF'']))
   \<and> batches_in_order (trace (snd (snd example_result)))
   \<and> completed_in
         (drop (length (trace example_world))
            (trace (snd (process_batch 10 (\<lambda>b t. 0) (Some 2) example_client example_world
                           [''in/a.pdf'', ''in/b.PDF'']))))
         (executors (trace example_world)) 0
   \<and> completed_in
         (drop (length (trace example_world))
            (trace (snd (process_batch 10 (\<lambda>b t. 0) (Some 2) example_client example_world
                           [''in/a.pdf'', ''in/b.PDF'']))))
         (executors (trace example_world)) 1"
proof -
  have i: "list_all io_event (trace example_world)"
    by (simp add: example_world_def)
  have b: "process_batch 10 (\<lambda>b t. 0) (Some 2) example_client example_world
             [''in/a.pdf'', ''in/b.PDF'']
           = (Returned, snd (process_batch 10 (\<lambda>b t. 0) (Some 2) example_client example_world
                               [''in/a.pdf'', ''in/b.PDF'']))"
    using example_batch by (simp add: prod_eq_iff)
  show ?thesis
    using batches_run_in_order [OF i example_process b] i example_process b by simp
qed

lemma example_run_has_two_batches:
  "submitted_in (trace (snd (snd example_result))) 0 = [0, 1]
   \<and> submitted_in (trace (snd (snd example_result))) 1 = [0]"
  by code_simp

end
